theory Spec2Isabelle
  imports Complex_Main "HOL-Library.Word" "HOL-Library.Signed_Division"
begin

unbundle bit_operations_syntax

section \<open>Binary floating point as the sketches use it\<close>

text \<open>
  Both sketches of \<^verbatim>\<open>battery.ino\<close> compute in C++ \<^verbatim>\<open>float\<close> (IEEE 754 binary32) and,
  wherever a literal such as \<^verbatim>\<open>4095.0\<close> takes part, in \<^verbatim>\<open>double\<close> (binary64). An
  operation is the exact result over the rationals, rounded to the nearest value of the
  format, ties to even. A \<^verbatim>\<open>float\<close> variable is its 32-bit pattern, so that the four bytes
  kept in the EEPROM are the variable itself; a \<^verbatim>\<open>double\<close> only ever is a temporary and is
  kept as the value it denotes. Every C++ operation is rounded on its own (no fused
  multiply-add), and an operation that produces a NaN produces the default quiet NaN.
\<close>

record format =
  frac_bits :: nat
  exp_bits :: nat

definition binary32 :: format where
  "binary32 = \<lparr>frac_bits = 23, exp_bits = 8\<rparr>"

definition binary64 :: format where
  "binary64 = \<lparr>frac_bits = 52, exp_bits = 11\<rparr>"

text \<open>A value: not a number, an infinity with its sign, or a sign (True is minus) and a
  magnitude. Zero has a sign, as in the format.\<close>

datatype fval = NaN | Inf bool | Fin bool rat

text \<open>The exponent of the smallest subnormal step, and the bit pattern (without the sign
  bit) of infinity: every pattern above it is a NaN.\<close>

definition emin :: "format \<Rightarrow> int" where
  "emin fmt = 2 - 2 ^ (exp_bits fmt - 1) - int (frac_bits fmt)"

definition inf_mag :: "format \<Rightarrow> int" where
  "inf_mag fmt = (2 ^ exp_bits fmt - 1) * 2 ^ frac_bits fmt"

function bit_length :: "int \<Rightarrow> int" where
  "bit_length n = (if n \<le> 0 then 0 else 1 + bit_length (n div 2))"
  by pat_completeness auto
termination
  by (relation "measure nat") auto

declare bit_length.simps [simp del]

text \<open>The integer part of the binary logarithm of a positive rational.\<close>

definition ilog2 :: "rat \<Rightarrow> int" where
  "ilog2 x = (if 1 \<le> x then bit_length \<lfloor>x\<rfloor> - 1
              else - bit_length (\<lceil>1 / x\<rceil> - 1))"

text \<open>The exponent of the unit in the last place of the format at magnitude \<open>x\<close>.\<close>

definition qexp :: "format \<Rightarrow> rat \<Rightarrow> int" where
  "qexp fmt x = max (emin fmt) (ilog2 x - int (frac_bits fmt))"

text \<open>Round to the nearest integer, a tie to the even one.\<close>

definition rhe_at :: "rat \<Rightarrow> int \<Rightarrow> int" where
  "rhe_at y n = (if y - of_int n < 1 / 2 then n else if 1 / 2 < y - of_int n then n + 1
                 else if even n then n else n + 1)"

definition rhe :: "rat \<Rightarrow> int" where
  "rhe y = rhe_at y \<lfloor>y\<rfloor>"

text \<open>The bit pattern of the magnitude \<open>x\<close> rounded into the format. Exponent field and
  fraction field read together as one integer grow with the magnitude, so a carry out of
  the fraction lands in the exponent, and what reaches the pattern of infinity
  overflows to it.\<close>

definition round_at :: "format \<Rightarrow> rat \<Rightarrow> int \<Rightarrow> int" where
  "round_at fmt x e =
     min (inf_mag fmt) ((e - emin fmt) * 2 ^ frac_bits fmt + rhe (x / 2 powi e))"

definition round_mag :: "format \<Rightarrow> rat \<Rightarrow> int" where
  "round_mag fmt x = (if x = 0 then 0 else round_at fmt x (qexp fmt x))"

text \<open>The magnitude that a bit pattern below infinity denotes.\<close>

definition mag_of :: "format \<Rightarrow> int \<Rightarrow> int \<Rightarrow> rat" where
  "mag_of fmt E f =
     (if E = 0 then of_int f * 2 powi (emin fmt)
      else of_int (2 ^ frac_bits fmt + f) * 2 powi (E - 1 + emin fmt))"

definition mag_val :: "format \<Rightarrow> int \<Rightarrow> rat" where
  "mag_val fmt m =
     (if m = 0 then 0 else mag_of fmt (m div 2 ^ frac_bits fmt) (m mod 2 ^ frac_bits fmt))"

text \<open>The value of a sign and a bit pattern.\<close>

definition of_mag :: "format \<Rightarrow> bool \<Rightarrow> int \<Rightarrow> fval" where
  "of_mag fmt s m =
     (if inf_mag fmt < m then NaN
      else if m = inf_mag fmt then Inf s
      else Fin s (mag_val fmt m))"

definition fl_round :: "format \<Rightarrow> fval \<Rightarrow> fval" where
  "fl_round fmt v = (case v of
       NaN \<Rightarrow> NaN
     | Inf s \<Rightarrow> Inf s
     | Fin s x \<Rightarrow> of_mag fmt s (round_mag fmt x))"

subsection \<open>Exact operations on values\<close>

definition signed :: "bool \<Rightarrow> rat \<Rightarrow> rat" where
  "signed s x = (if s then - x else x)"

fun fv_neg :: "fval \<Rightarrow> fval" where
  "fv_neg NaN = NaN"
| "fv_neg (Inf s) = Inf (\<not> s)"
| "fv_neg (Fin s x) = Fin (\<not> s) x"

text \<open>An exact sum \<open>z\<close> as a value; \<open>both\<close> says that both terms were negative,
  which is when a zero sum is the negative zero.\<close>

definition fv_sum :: "bool \<Rightarrow> rat \<Rightarrow> fval" where
  "fv_sum both z = (if z = 0 then Fin both 0 else Fin (z < 0) \<bar>z\<bar>)"

fun fv_add :: "fval \<Rightarrow> fval \<Rightarrow> fval" where
  "fv_add NaN _ = NaN"
| "fv_add _ NaN = NaN"
| "fv_add (Inf s) (Inf t) = (if s = t then Inf s else NaN)"
| "fv_add (Inf s) (Fin t y) = Inf s"
| "fv_add (Fin s x) (Inf t) = Inf t"
| "fv_add (Fin s x) (Fin t y) = fv_sum (s \<and> t) (signed s x + signed t y)"

definition fv_sub :: "fval \<Rightarrow> fval \<Rightarrow> fval" where
  "fv_sub a b = fv_add a (fv_neg b)"

fun fv_mul :: "fval \<Rightarrow> fval \<Rightarrow> fval" where
  "fv_mul NaN _ = NaN"
| "fv_mul _ NaN = NaN"
| "fv_mul (Inf s) (Inf t) = Inf (s \<noteq> t)"
| "fv_mul (Inf s) (Fin t y) = (if y = 0 then NaN else Inf (s \<noteq> t))"
| "fv_mul (Fin s x) (Inf t) = (if x = 0 then NaN else Inf (s \<noteq> t))"
| "fv_mul (Fin s x) (Fin t y) = Fin (s \<noteq> t) (x * y)"

fun fv_div :: "fval \<Rightarrow> fval \<Rightarrow> fval" where
  "fv_div NaN _ = NaN"
| "fv_div _ NaN = NaN"
| "fv_div (Inf s) (Inf t) = NaN"
| "fv_div (Inf s) (Fin t y) = Inf (s \<noteq> t)"
| "fv_div (Fin s x) (Inf t) = Fin (s \<noteq> t) 0"
| "fv_div (Fin s x) (Fin t y) =
     (if y = 0 then (if x = 0 then NaN else Inf (s \<noteq> t))
      else Fin (s \<noteq> t) (x / y))"

text \<open>Comparisons are false as soon as one side is a NaN.\<close>

fun fv_lt :: "fval \<Rightarrow> fval \<Rightarrow> bool" where
  "fv_lt NaN _ = False"
| "fv_lt _ NaN = False"
| "fv_lt (Inf s) (Inf t) = (s \<and> \<not> t)"
| "fv_lt (Inf s) (Fin t y) = s"
| "fv_lt (Fin s x) (Inf t) = (\<not> t)"
| "fv_lt (Fin s x) (Fin t y) = (signed s x < signed t y)"

fun fv_le :: "fval \<Rightarrow> fval \<Rightarrow> bool" where
  "fv_le NaN _ = False"
| "fv_le _ NaN = False"
| "fv_le (Inf s) (Inf t) = (s \<or> \<not> t)"
| "fv_le (Inf s) (Fin t y) = s"
| "fv_le (Fin s x) (Inf t) = (\<not> t)"
| "fv_le (Fin s x) (Fin t y) = (signed s x \<le> signed t y)"

definition fv_of_int :: "int \<Rightarrow> fval" where
  "fv_of_int i = Fin (i < 0) (of_int \<bar>i\<bar>)"

definition fv_of_rat :: "rat \<Rightarrow> fval" where
  "fv_of_rat q = Fin (q < 0) \<bar>q\<bar>"

subsection \<open>The type \<^verbatim>\<open>float\<close>: 32-bit patterns\<close>

type_synonym float32 = "32 word"

definition f32_dec :: "float32 \<Rightarrow> fval" where
  "f32_dec w = of_mag binary32 (bit w 31) (uint (take_bit 31 w))"

definition sign_word :: "bool \<Rightarrow> float32" where
  "sign_word s = (if s then 0x80000000 else 0)"

definition f32_enc :: "fval \<Rightarrow> float32" where
  "f32_enc v = (case v of
       NaN \<Rightarrow> 0x7FC00000
     | Inf s \<Rightarrow> sign_word s + 0x7F800000
     | Fin s x \<Rightarrow> sign_word s + word_of_int (round_mag binary32 x))"

definition f32_sub :: "float32 \<Rightarrow> float32 \<Rightarrow> float32" where
  "f32_sub a b = f32_enc (fv_sub (f32_dec a) (f32_dec b))"

definition f32_mul :: "float32 \<Rightarrow> float32 \<Rightarrow> float32" where
  "f32_mul a b = f32_enc (fv_mul (f32_dec a) (f32_dec b))"

definition f32_div :: "float32 \<Rightarrow> float32 \<Rightarrow> float32" where
  "f32_div a b = f32_enc (fv_div (f32_dec a) (f32_dec b))"

definition f32_lt :: "float32 \<Rightarrow> float32 \<Rightarrow> bool" where
  "f32_lt a b = fv_lt (f32_dec a) (f32_dec b)"

definition f32_gt :: "float32 \<Rightarrow> float32 \<Rightarrow> bool" where
  "f32_gt a b = fv_lt (f32_dec b) (f32_dec a)"

definition f32_le :: "float32 \<Rightarrow> float32 \<Rightarrow> bool" where
  "f32_le a b = fv_le (f32_dec a) (f32_dec b)"

definition f32_isnan :: "float32 \<Rightarrow> bool" where
  "f32_isnan a = (f32_dec a = NaN)"

text \<open>\<^verbatim>\<open>abs\<close> clears the sign bit. (Where \<^verbatim>\<open>abs\<close> is the macro
  \<^verbatim>\<open>((x)>0?(x):-(x))\<close>, the result differs on the zeros and the NaNs only, which no
  comparison tells apart.)\<close>

definition f32_abs :: "float32 \<Rightarrow> float32" where
  "f32_abs a = take_bit 31 a"

text \<open>An \<^verbatim>\<open>int\<close> converted to \<^verbatim>\<open>float\<close>, as in \<^verbatim>\<open>batteryJuiceLeft < 0\<close>.\<close>

definition f32_of_int :: "int \<Rightarrow> float32" where
  "f32_of_int i = f32_enc (fv_of_int i)"

subsection \<open>The type \<^verbatim>\<open>double\<close>: values of binary64\<close>

type_synonym double = fval

definition d_lit :: "rat \<Rightarrow> double" where
  "d_lit q = fl_round binary64 (fv_of_rat q)"

definition d_of_int :: "int \<Rightarrow> double" where
  "d_of_int i = fl_round binary64 (fv_of_int i)"

definition d_of_f32 :: "float32 \<Rightarrow> double" where
  "d_of_f32 a = fl_round binary64 (f32_dec a)"

definition d_mul :: "double \<Rightarrow> double \<Rightarrow> double" where
  "d_mul a b = fl_round binary64 (fv_mul a b)"

definition d_div :: "double \<Rightarrow> double \<Rightarrow> double" where
  "d_div a b = fl_round binary64 (fv_div a b)"

definition f32_of_double :: "double \<Rightarrow> float32" where
  "f32_of_double d = f32_enc d"

text \<open>A \<^verbatim>\<open>float\<close> initialised from a literal: the literal is a \<^verbatim>\<open>double\<close>, converted.\<close>

definition f32_lit :: "rat \<Rightarrow> float32" where
  "f32_lit q = f32_of_double (d_lit q)"


section \<open>What the two sketches share\<close>

subsection \<open>Reading the ADC\<close>

text \<open>
  \<^verbatim>\<open>analogRead\<close> returns a \<^verbatim>\<open>uint16_t\<close>; \<open>adc i\<close> is the result of the \<open>i\<close>-th call
  inside one loop of reads. The accumulator is a \<^verbatim>\<open>long\<close> and the average an \<^verbatim>\<open>int\<close>,
  both 32 bits wide on the ESP32; \<^verbatim>\<open>/\<close> on them truncates towards zero.
\<close>

type_synonym adc = "nat \<Rightarrow> 16 word"

function sum_readings :: "adc \<Rightarrow> nat \<Rightarrow> nat \<Rightarrow> 32 word \<Rightarrow> 32 word" where
  "sum_readings adc n i totalReading =
     (if i < n then sum_readings adc n (Suc i) (totalReading + ucast (adc i))
      else totalReading)"
  by pat_completeness auto
termination
  by (relation "measure (\<lambda>(adc, n, i, totalReading). n - i)") auto

declare sum_readings.simps [simp del]

definition c_div :: "32 word \<Rightarrow> 32 word \<Rightarrow> 32 word" where
  "c_div a b = word_of_int (sint a sdiv sint b)"

definition average_reading :: "adc \<Rightarrow> nat \<Rightarrow> 32 word" where
  "average_reading adc n = c_div (sum_readings adc n 0 0) (of_nat n)"

text \<open>The expression \<^verbatim>\<open>(reading / 4095.0) * ESP32_VOLTAGE\<close>, which both sketches use for
  every conversion of a count to volts: the division and the product are in \<^verbatim>\<open>double\<close>,
  the result is stored in a \<^verbatim>\<open>float\<close>.\<close>

definition counts_to_volts :: "32 word \<Rightarrow> float32 \<Rightarrow> float32" where
  "counts_to_volts reading vref =
     f32_of_double (d_mul (d_div (d_of_int (sint reading)) (d_lit 4095)) (d_of_f32 vref))"

subsection \<open>What the sketches show\<close>

record report =
  shownVoltage :: float32
  shownAmps :: float32
  shownSoc :: float32
  shownTemp :: "float32 option"

datatype screen = Blank | StartupMessage | CalibratingScreen | Readings report

datatype line =
    MemoryWeird
  | GotOldLevel float32
  | NoScreen
  | CalibratingLine
  | NewZeroPoint float32
  | CalibrationComplete
  | ReadingLine report
  | SavedLine

text \<open>Where the program stands between two steps: before \<^verbatim>\<open>setup\<close>, in the endless
  loop that \<^verbatim>\<open>setup\<close> enters when the display does not start, at the top of
  \<^verbatim>\<open>loop\<close>, or in the loop that waits for the button to be released.\<close>

datatype pc = PowerOn | Frozen | LoopTop | ButtonHeld

subsection \<open>The EEPROM library\<close>

text \<open>
  The library keeps a buffer in RAM that \<^verbatim>\<open>begin\<close> fills from flash (erased flash reads
  \<^verbatim>\<open>0xFF\<close>), \<^verbatim>\<open>get\<close> and \<^verbatim>\<open>put\<close> copy the bytes of the object from and to the buffer
  when they fit, and \<^verbatim>\<open>commit\<close> writes the buffer back to flash. The ESP32 is little
  endian.
\<close>

definition bytes_of_float :: "float32 \<Rightarrow> 8 word list" where
  "bytes_of_float w = [ucast w, ucast (drop_bit 8 w), ucast (drop_bit 16 w), ucast (drop_bit 24 w)]"

fun float_of_bytes :: "8 word list \<Rightarrow> float32" where
  "float_of_bytes [b0, b1, b2, b3] =
     ucast b0 OR push_bit 8 (ucast b1) OR push_bit 16 (ucast b2) OR push_bit 24 (ucast b3)"
| "float_of_bytes _ = 0"

definition EEPROM_begin :: "nat \<Rightarrow> 8 word list \<Rightarrow> 8 word list" where
  "EEPROM_begin n fl = take n fl @ replicate (n - length fl) 0xFF"

definition EEPROM_get :: "8 word list \<Rightarrow> nat \<Rightarrow> float32 \<Rightarrow> float32" where
  "EEPROM_get data addr t =
     (if addr + 4 \<le> length data then float_of_bytes (take 4 (drop addr data)) else t)"

definition EEPROM_put :: "8 word list \<Rightarrow> nat \<Rightarrow> float32 \<Rightarrow> 8 word list" where
  "EEPROM_put data addr t =
     (if addr + 4 \<le> length data
      then take addr data @ bytes_of_float t @ drop (addr + 4) data else data)"

subsection \<open>What a step reads from outside\<close>

text \<open>
  The result of \<^verbatim>\<open>display.begin\<close>; whether \<^verbatim>\<open>digitalRead(CALIBRATE_BUTTON)\<close> is
  \<^verbatim>\<open>LOW\<close>; the readings of the current pin inside a calibration; \<^verbatim>\<open>millis()\<close> in the
  once-per-second test and in the assignment that follows it; the reading of the voltage
  pin and the readings of the current pin inside a tick; the temperature of the probe;
  \<^verbatim>\<open>millis()\<close> in the once-per-minute test and in the assignment that follows it. The two
  readings of \<^verbatim>\<open>millis()\<close> at the end of \<^verbatim>\<open>setup\<close> are \<open>millisCheck\<close> and
  \<open>millisSave\<close>.
\<close>

record inputs =
  displayBegins :: bool
  buttonLow :: bool
  calibrationReadings :: adc
  millisCheck :: "32 word"
  millisChecked :: "32 word"
  voltageReading :: "16 word"
  currentReadings :: adc
  tempC :: float32
  millisSave :: "32 word"
  millisSaved :: "32 word"

section \<open>The first sketch: with persistence, temperature and dead zone\<close>

definition BATTERY_FULL_CAPACITY :: float32 where
  "BATTERY_FULL_CAPACITY = f32_lit (12064 / 1000)"

definition VOLTAGE_CORRECTION :: float32 where
  "VOLTAGE_CORRECTION = f32_lit (5423 / 1000)"

definition CURRENT_SENSITIVITY :: float32 where
  "CURRENT_SENSITIVITY = f32_lit (185 / 1000)"

definition ESP32_VOLTAGE :: float32 where
  "ESP32_VOLTAGE = f32_lit (33 / 10)"

definition SAMPLES_TO_AVERAGE :: nat where
  "SAMPLES_TO_AVERAGE = 200"

definition CURRENT_NOISE_THRESHOLD :: float32 where
  "CURRENT_NOISE_THRESHOLD = f32_lit (5 / 100)"

record sketch1 =
  noLoadVoltage :: float32
  batteryJuiceLeft :: float32
  timeOfLastCheck :: "32 word"
  timeOfLastSave :: "32 word"
  eeprom :: "8 word list"
  flash :: "8 word list"
  serial :: "line list"
  oled :: screen
  stage :: pc

text \<open>The globals as the C++ start-up code leaves them, over a given content of flash.\<close>

definition power_on :: "8 word list \<Rightarrow> sketch1" where
  "power_on fl = \<lparr>noLoadVoltage = 0, batteryJuiceLeft = 0, timeOfLastCheck = 0,
     timeOfLastSave = 0, eeprom = [], flash = fl, serial = [], oled = Blank, stage = PowerOn\<rparr>"

text \<open>Lines 207 to 225.\<close>

definition zeroOutCurrentSensor :: "adc \<Rightarrow> sketch1 \<Rightarrow> sketch1" where
  "zeroOutCurrentSensor adc m =
     (let avgReading = average_reading adc 500;
          v = counts_to_volts avgReading ESP32_VOLTAGE
      in m\<lparr>noLoadVoltage := v, oled := CalibratingScreen,
            serial := serial m @ [CalibratingLine, NewZeroPoint v]\<rparr>)"

text \<open>Lines 60 to 69: what \<^verbatim>\<open>setup\<close> makes of the value it loaded.\<close>

definition weird :: "float32 \<Rightarrow> bool" where
  "weird x = (f32_isnan x \<or> f32_lt x (f32_of_int 0) \<or> f32_gt x BATTERY_FULL_CAPACITY)"

definition load_level :: "sketch1 \<Rightarrow> sketch1" where
  "load_level m =
     (let data = EEPROM_begin 4 (flash m);
          x = EEPROM_get data 0 (batteryJuiceLeft m)
      in if weird x
         then m\<lparr>eeprom := data, batteryJuiceLeft := BATTERY_FULL_CAPACITY,
                serial := serial m @ [MemoryWeird]\<rparr>
         else m\<lparr>eeprom := data, batteryJuiceLeft := x,
                serial := serial m @ [GotOldLevel x]\<rparr>)"

text \<open>Lines 55 to 91. When the display does not start, \<^verbatim>\<open>while (true);\<close> is all that
  ever runs again.\<close>

definition setup1 :: "inputs \<Rightarrow> sketch1 \<Rightarrow> sketch1" where
  "setup1 inp m0 =
     (let m = load_level m0 in
      if \<not> displayBegins inp
      then m\<lparr>serial := serial m @ [NoScreen], stage := Frozen\<rparr>
      else (zeroOutCurrentSensor (calibrationReadings inp) m)
             \<lparr>timeOfLastCheck := millisCheck inp, timeOfLastSave := millisSave inp,
              stage := LoopTop\<rparr>)"

text \<open>Lines 109 to 112.\<close>

definition read_voltage1 :: "16 word \<Rightarrow> float32" where
  "read_voltage1 rawVoltageReading =
     f32_mul (counts_to_volts (ucast rawVoltageReading) ESP32_VOLTAGE) VOLTAGE_CORRECTION"

text \<open>Lines 114 to 120.\<close>

definition currentSensorVoltage :: "adc \<Rightarrow> float32" where
  "currentSensorVoltage adc =
     counts_to_volts (average_reading adc SAMPLES_TO_AVERAGE) ESP32_VOLTAGE"

text \<open>Line 122.\<close>

definition read_amps1 :: "adc \<Rightarrow> float32 \<Rightarrow> float32" where
  "read_amps1 adc noLoad =
     f32_div (f32_sub noLoad (currentSensorVoltage adc)) CURRENT_SENSITIVITY"

text \<open>Lines 124 to 127.\<close>

definition ignore_noise :: "float32 \<Rightarrow> float32" where
  "ignore_noise amps =
     (if f32_lt (f32_abs amps) CURRENT_NOISE_THRESHOLD then f32_of_double (d_lit 0) else amps)"

text \<open>Line 141.\<close>

definition timePassedInHours :: float32 where
  "timePassedInHours = f32_of_double (d_div (d_lit 1) (d_lit 3600))"

text \<open>Lines 145 to 147.\<close>

definition keep_in_range :: "float32 \<Rightarrow> float32 \<Rightarrow> float32" where
  "keep_in_range full x =
     (let y = (if f32_lt x (f32_of_int 0) then f32_of_int 0 else x)
      in if f32_gt y full then full else y)"

text \<open>Lines 142 to 147.\<close>

definition use_juice :: "float32 \<Rightarrow> float32 \<Rightarrow> float32" where
  "use_juice amps juice =
     (let ampsUsed = f32_mul amps timePassedInHours
      in keep_in_range BATTERY_FULL_CAPACITY (f32_sub juice ampsUsed))"

text \<open>Line 150, and line 348 of the second sketch.\<close>

definition percent_of :: "float32 \<Rightarrow> float32 \<Rightarrow> float32" where
  "percent_of full juice = f32_of_double (d_mul (d_of_f32 (f32_div juice full)) (d_lit 100))"

text \<open>Lines 105 to 193: the body of the once-per-second branch.\<close>

definition tick1 :: "inputs \<Rightarrow> sketch1 \<Rightarrow> sketch1" where
  "tick1 inp m =
     (let actualBatteryVoltage = read_voltage1 (voltageReading inp);
          amps = ignore_noise (read_amps1 (currentReadings inp) (noLoadVoltage m));
          juice = use_juice amps (batteryJuiceLeft m);
          r = \<lparr>shownVoltage = actualBatteryVoltage, shownAmps = amps,
               shownSoc = percent_of BATTERY_FULL_CAPACITY juice, shownTemp = Some (tempC inp)\<rparr>
      in m\<lparr>timeOfLastCheck := millisChecked inp, batteryJuiceLeft := juice,
            oled := Readings r, serial := serial m @ [ReadingLine r]\<rparr>)"

text \<open>Lines 199 to 202.\<close>

definition save_level :: "inputs \<Rightarrow> sketch1 \<Rightarrow> sketch1" where
  "save_level inp m =
     (let data = EEPROM_put (eeprom m) 0 (batteryJuiceLeft m)
      in m\<lparr>timeOfLastSave := millisSaved inp, eeprom := data, flash := data,
            serial := serial m @ [SavedLine]\<rparr>)"

text \<open>Lines 103 to 203: \<^verbatim>\<open>loop\<close> after the button. \<^verbatim>\<open>millis()\<close> is an \<^verbatim>\<open>unsigned long\<close>,
  the difference wraps.\<close>

definition after_button1 :: "inputs \<Rightarrow> sketch1 \<Rightarrow> sketch1" where
  "after_button1 inp m =
     (let m1 = (if 1000 \<le> millisCheck inp - timeOfLastCheck m then tick1 inp m else m)
      in if 60000 \<le> millisSave inp - timeOfLastSave m1 then save_level inp m1 else m1)"

text \<open>One step of the program: \<^verbatim>\<open>setup\<close>, one turn of the endless loop, one pass of
  \<^verbatim>\<open>loop\<close> up to the button's wait, or one poll of the held button.\<close>

definition step1 :: "inputs \<Rightarrow> sketch1 \<Rightarrow> sketch1" where
  "step1 inp m = (case stage m of
       PowerOn \<Rightarrow> setup1 inp m
     | Frozen \<Rightarrow> m
     | LoopTop \<Rightarrow>
         if buttonLow inp
         then (zeroOutCurrentSensor (calibrationReadings inp) m)\<lparr>stage := ButtonHeld\<rparr>
         else after_button1 inp m
     | ButtonHeld \<Rightarrow>
         if buttonLow inp then m else after_button1 inp (m\<lparr>stage := LoopTop\<rparr>))"

fun run1 :: "inputs list \<Rightarrow> sketch1 \<Rightarrow> sketch1" where
  "run1 [] m = m"
| "run1 (inp # inps) m = run1 inps (step1 inp m)"

section \<open>The second sketch: no persistence, dead zone commented out\<close>

definition BATTERY_CAPACITY_Ah :: float32 where
  "BATTERY_CAPACITY_Ah = f32_lit (12064 / 1000)"

definition VOLTAGE_DIVIDER_RATIO :: float32 where
  "VOLTAGE_DIVIDER_RATIO = f32_lit (5423 / 1000)"

definition ACS712_SENSITIVITY :: float32 where
  "ACS712_SENSITIVITY = f32_lit (185 / 1000)"

definition ADC_REFERENCE_VOLTAGE :: float32 where
  "ADC_REFERENCE_VOLTAGE = f32_lit (33 / 10)"

definition CURRENT_AVG_SAMPLES :: nat where
  "CURRENT_AVG_SAMPLES = 400"

record sketch2 =
  zeroCurrentVoltage :: float32
  remainingCapacity_Ah :: float32
  lastTime :: "32 word"
  serial2 :: "line list"
  oled2 :: screen
  stage2 :: pc

definition power_on2 :: sketch2 where
  "power_on2 = \<lparr>zeroCurrentVoltage = 0, remainingCapacity_Ah = BATTERY_CAPACITY_Ah,
     lastTime = 0, serial2 = [], oled2 = Blank, stage2 = PowerOn\<rparr>"

text \<open>Lines 374 to 394.\<close>

definition recalibrateCurrentSensor :: "adc \<Rightarrow> sketch2 \<Rightarrow> sketch2" where
  "recalibrateCurrentSensor adc m =
     (let avg_adc = average_reading adc 1000;
          v = counts_to_volts avg_adc ADC_REFERENCE_VOLTAGE
      in m\<lparr>zeroCurrentVoltage := v, oled2 := CalibratingScreen,
            serial2 := serial2 m @ [CalibratingLine, NewZeroPoint v, CalibrationComplete]\<rparr>)"

text \<open>Lines 266 to 298.\<close>

definition setup2 :: "inputs \<Rightarrow> sketch2 \<Rightarrow> sketch2" where
  "setup2 inp m =
     (if \<not> displayBegins inp
      then m\<lparr>serial2 := serial2 m @ [NoScreen], stage2 := Frozen\<rparr>
      else (recalibrateCurrentSensor (calibrationReadings inp) (m\<lparr>oled2 := StartupMessage\<rparr>))
             \<lparr>lastTime := millisCheck inp, stage2 := LoopTop\<rparr>)"

text \<open>Line 315.\<close>

definition deltaTime_hours :: float32 where
  "deltaTime_hours = f32_of_double (d_div (d_lit 1000) (d_lit 3600000))"

text \<open>Lines 317 to 320.\<close>

definition read_voltage2 :: "16 word \<Rightarrow> float32" where
  "read_voltage2 voltage_adc_value =
     f32_mul (counts_to_volts (ucast voltage_adc_value) ADC_REFERENCE_VOLTAGE) VOLTAGE_DIVIDER_RATIO"

text \<open>Lines 322 to 329.\<close>

definition sensor_voltage :: "adc \<Rightarrow> float32" where
  "sensor_voltage adc =
     counts_to_volts (average_reading adc CURRENT_AVG_SAMPLES) ADC_REFERENCE_VOLTAGE"

text \<open>Line 332.\<close>

definition read_current2 :: "adc \<Rightarrow> float32 \<Rightarrow> float32" where
  "read_current2 adc zero =
     f32_div (f32_sub zero (sensor_voltage adc)) ACS712_SENSITIVITY"

text \<open>Lines 339 to 345.\<close>

definition count_coulombs :: "float32 \<Rightarrow> float32 \<Rightarrow> float32" where
  "count_coulombs current remaining =
     (let chargeConsumed_Ah = f32_mul current deltaTime_hours
      in keep_in_range BATTERY_CAPACITY_Ah (f32_sub remaining chargeConsumed_Ah))"

text \<open>Lines 312 to 369.\<close>

definition tick2 :: "inputs \<Rightarrow> sketch2 \<Rightarrow> sketch2" where
  "tick2 inp m =
     (let battery_voltage = read_voltage2 (voltageReading inp);
          current = read_current2 (currentReadings inp) (zeroCurrentVoltage m);
          remaining = count_coulombs current (remainingCapacity_Ah m);
          r = \<lparr>shownVoltage = battery_voltage, shownAmps = current,
               shownSoc = percent_of BATTERY_CAPACITY_Ah remaining, shownTemp = None\<rparr>
      in m\<lparr>lastTime := millisChecked inp, remainingCapacity_Ah := remaining,
            oled2 := Readings r\<rparr>)"

definition after_button2 :: "inputs \<Rightarrow> sketch2 \<Rightarrow> sketch2" where
  "after_button2 inp m = (if 1000 \<le> millisCheck inp - lastTime m then tick2 inp m else m)"

definition step2 :: "inputs \<Rightarrow> sketch2 \<Rightarrow> sketch2" where
  "step2 inp m = (case stage2 m of
       PowerOn \<Rightarrow> setup2 inp m
     | Frozen \<Rightarrow> m
     | LoopTop \<Rightarrow>
         if buttonLow inp
         then (recalibrateCurrentSensor (calibrationReadings inp) m)\<lparr>stage2 := ButtonHeld\<rparr>
         else after_button2 inp m
     | ButtonHeld \<Rightarrow>
         if buttonLow inp then m else after_button2 inp (m\<lparr>stage2 := LoopTop\<rparr>))"

fun run2 :: "inputs list \<Rightarrow> sketch2 \<Rightarrow> sketch2" where
  "run2 [] m = m"
| "run2 (inp # inps) m = run2 inps (step2 inp m)"


section \<open>The specification's words, and inputs to try the sketches on\<close>

text \<open>The reading that the specification's Sampler promises: the arithmetic mean of the
  samples, converted to volts by the linear formula.\<close>

definition spec_readAveragedCurrentVoltage :: "adc \<Rightarrow> nat \<Rightarrow> float32 \<Rightarrow> float32" where
  "spec_readAveragedCurrentVoltage adc sampleCount referenceVoltage =
     f32_of_double
       (d_mul (d_div (d_lit (of_int (\<Sum>k = 0..<sampleCount. uint (adc k)) / of_nat sampleCount))
                     (d_lit 4095))
              (d_of_f32 referenceVoltage))"

text \<open>Clamping to the range from 0 to the full capacity: what is below 0 becomes 0, what
  is above the full capacity becomes the full capacity.\<close>

definition spec_clamp :: "float32 \<Rightarrow> float32 \<Rightarrow> float32" where
  "spec_clamp fullCapacityAh x =
     (if f32_lt x 0 then 0 else if f32_gt x fullCapacityAh then fullCapacityAh else x)"

text \<open>The time between two ticks in hours: the milliseconds that \<^verbatim>\<open>millis()\<close> counted,
  over 3600000, as the nearest \<^verbatim>\<open>float\<close>.\<close>

definition spec_hours :: "32 word \<Rightarrow> float32" where
  "spec_hours elapsedMs = f32_enc (fv_of_rat (of_int (uint elapsedMs) / 3600000))"

text \<open>Step 6 of the specification's Estimator, in the arithmetic of the \<^verbatim>\<open>float\<close> type:
  the remaining capacity over the full capacity, times 100.\<close>

definition spec_percent :: "float32 \<Rightarrow> float32 \<Rightarrow> float32" where
  "spec_percent fullCapacityAh remainingCapacityAh =
     f32_mul (f32_div remainingCapacityAh fullCapacityAh) (f32_lit 100)"

text \<open>The per-tick algorithm of the specification's Estimator, steps 1 to 6, with the
  dead-zone policy of step 2 as a parameter and the time since the previous tick in
  milliseconds: the current, the new remaining capacity and the percentage.\<close>

definition spec_tick ::
  "(float32 \<Rightarrow> float32) \<Rightarrow> float32 \<Rightarrow> float32 \<Rightarrow> 32 word \<Rightarrow> float32 \<Rightarrow> float32 \<Rightarrow> float32
    \<Rightarrow> float32 \<times> float32 \<times> float32" where
  "spec_tick deadZone fullCapacityAh sensorSensitivity elapsedMs zeroOffsetVoltage sensorVoltage
       remainingCapacityAh =
     (let current = deadZone (f32_div (f32_sub zeroOffsetVoltage sensorVoltage) sensorSensitivity);
          chargeDeltaAh = f32_mul current (spec_hours elapsedMs);
          remaining = spec_clamp fullCapacityAh (f32_sub remainingCapacityAh chargeDeltaAh)
      in (current, remaining, spec_percent fullCapacityAh remaining))"

text \<open>A pass of \<^verbatim>\<open>loop\<close> in which the display has started, the button is up, every
  ADC reading is mid-scale and no time has passed.\<close>

definition quiet :: inputs where
  "quiet = \<lparr>displayBegins = True, buttonLow = False, calibrationReadings = (\<lambda>i. 2048),
     millisCheck = 0, millisChecked = 0, voltageReading = 2048, currentReadings = (\<lambda>i. 2048),
     tempC = 0, millisSave = 0, millisSaved = 0\<rparr>"

text \<open>The invariant of the charge state, and the range of a percentage, in the
  comparisons of the \<^verbatim>\<open>float\<close> type (\<^verbatim>\<open>0x42C80000\<close> is 100).\<close>

definition in_range :: "float32 \<Rightarrow> float32 \<Rightarrow> bool" where
  "in_range full x = (f32_le 0 x \<and> f32_le x full)"

definition percent_ok :: "float32 \<Rightarrow> bool" where
  "percent_ok p = (f32_le 0 p \<and> f32_le p 0x42C80000)"

definition f32_finite :: "float32 \<Rightarrow> bool" where
  "f32_finite w = (case f32_dec w of Fin s x \<Rightarrow> True | _ \<Rightarrow> False)"

text \<open>The percentage that a state shows, if it shows readings.\<close>

definition shown_percent_ok :: "screen \<Rightarrow> bool" where
  "shown_percent_ok scr = (case scr of Readings r \<Rightarrow> percent_ok (shownSoc r) | _ \<Rightarrow> False)"

section \<open>Notions for the proofs about rounding\<close>

text \<open>A value whose magnitude is not negative; a finite value of magnitude at most \<open>c\<close>;
  a value that is not below zero.\<close>

definition wf :: "fval \<Rightarrow> bool" where
  "wf v = (case v of Fin s x \<Rightarrow> 0 \<le> x | _ \<Rightarrow> True)"

definition at_most :: "rat \<Rightarrow> fval \<Rightarrow> bool" where
  "at_most c v = (case v of Fin s x \<Rightarrow> 0 \<le> x \<and> x \<le> c | _ \<Rightarrow> False)"

definition nonneg :: "fval \<Rightarrow> bool" where
  "nonneg v = (case v of Fin s x \<Rightarrow> s \<longrightarrow> x = 0 | Inf s \<Rightarrow> \<not> s | NaN \<Rightarrow> False)"

text \<open>What every step of the sketches keeps: the remaining capacity in its range, and a
  zero-offset voltage that is a finite number.\<close>

definition steady1 :: "sketch1 \<Rightarrow> bool" where
  "steady1 m = (in_range BATTERY_FULL_CAPACITY (batteryJuiceLeft m) \<and> f32_finite (noLoadVoltage m))"

definition steady2 :: "sketch2 \<Rightarrow> bool" where
  "steady2 m = (in_range BATTERY_CAPACITY_Ah (remainingCapacity_Ah m)
     \<and> f32_finite (zeroCurrentVoltage m))"

section \<open>Averaging the ADC\<close>

text \<open>The loop of reads adds up the readings; with at most a thousand 16-bit readings
  the 32-bit accumulator cannot overflow, and the truncating division of a sum that is
  not negative is the integer quotient.\<close>

lemma sum_readings_eq:
  "sum_readings adc n i t = t + word_of_int (\<Sum>k = i..<n. uint (adc k))"
proof (induction adc n i t rule: sum_readings.induct)
  case (1 adc n i t)
  show ?case
  proof (cases "i < n")
    case True
    then have "sum_readings adc n i t = sum_readings adc n (Suc i) (t + ucast (adc i))"
      by (subst sum_readings.simps) simp
    also have "\<dots> = t + ucast (adc i) + word_of_int (\<Sum>k = Suc i..<n. uint (adc k))"
      by (rule "1.IH" [OF True])
    also have "\<dots> = t + word_of_int (\<Sum>k = i..<n. uint (adc k))"
      using True by (simp only: sum.atLeast_Suc_lessThan ucast_eq wi_hom_syms add.assoc)
    finally show ?thesis .
  next
    case False
    then show ?thesis by (subst sum_readings.simps) simp
  qed
qed

lemma readings_sum_bounds:
  "0 \<le> (\<Sum>k = i..<n. uint (adc k :: 16 word)) \<and>
   (\<Sum>k = i..<n. uint (adc k)) \<le> int (n - i) * 65535"
proof -
  have "(\<Sum>k = i..<n. uint (adc k)) \<le> (\<Sum>k = i..<n. 65535)"
  proof (rule sum_mono)
    fix k show "uint (adc k) \<le> 65535"
      using uint_bounded [of "adc k"] by simp
  qed
  moreover have "0 \<le> (\<Sum>k = i..<n. uint (adc k))"
    by (rule sum_nonneg) simp
  ultimately show ?thesis by simp
qed

lemma sint_small: "0 \<le> k \<Longrightarrow> k < 2 ^ 31 \<Longrightarrow> sint (word_of_int k :: 32 word) = k"
  by (simp add: sint_sbintrunc' signed_take_bit_int_eq_self)

lemma average_reading_eq:
  assumes "0 < n" "n \<le> 1000"
  shows "average_reading adc n = word_of_int ((\<Sum>k = 0..<n. uint (adc k)) div int n)"
proof -
  let ?S = "\<Sum>k = 0..<n. uint (adc k)"
  have b: "0 \<le> ?S" "?S \<le> int n * 65535"
    using readings_sum_bounds [where i = 0 and n = n and adc = adc] by simp_all
  have "int n * 65535 \<le> 1000 * 65535" using assms(2) by simp
  then have "?S \<le> 1000 * 65535" using b(2) by linarith
  then have s: "sint (word_of_int ?S :: 32 word) = ?S"
    using b(1) by (intro sint_small) simp_all
  have n: "sint (of_nat n :: 32 word) = int n"
    using assms(2) sint_small [of "int n"] by simp
  have d: "?S sdiv int n = ?S div int n"
    using b(1) assms(1) by (cases "?S = 0") (simp_all add: signed_divide_int_def)
  have "average_reading adc n = c_div (word_of_int ?S) (of_nat n)"
    by (simp only: average_reading_def sum_readings_eq add_0)
  also have "\<dots> = word_of_int (?S div int n)"
    by (simp only: c_div_def s n d)
  finally show ?thesis .
qed

lemma average_constant:
  assumes "0 < n" "n \<le> 1000" "\<forall>k<n. adc k = C"
  shows "average_reading adc n = ucast C"
proof -
  have "(\<Sum>k = 0..<n. uint (adc k)) = (\<Sum>k = 0..<n. uint C)"
    using assms(3) by (intro sum.cong) simp_all
  also have "\<dots> = int n * uint C" by simp
  finally have e: "(\<Sum>k = 0..<n. uint (adc k)) = int n * uint C" .
  have "(int n * uint C) div int n = uint C"
    using assms(1) by simp
  then show ?thesis
    by (simp only: average_reading_eq [OF assms(1,2)] e ucast_eq)
qed


section \<open>Calibration\<close>

text \<open>
  Claim C8. A calibration, the one of \<^verbatim>\<open>setup\<close> or one that the button asks for,
  leaves the remaining capacity as it is: \<^verbatim>\<open>zeroOutCurrentSensor\<close> and
  \<^verbatim>\<open>recalibrateCurrentSensor\<close> write the zero-offset voltage (and the display and the
  serial line) and nothing of the charge state, of the EEPROM or of the timers. In
  \<^verbatim>\<open>setup\<close> the level is the one that was loaded, the pass of \<^verbatim>\<open>loop\<close> that calibrates
  keeps it, and while the button stays held nothing changes at all.
\<close>

theorem calibration_keeps_charge:
  "batteryJuiceLeft (zeroOutCurrentSensor adc m) = batteryJuiceLeft m
   \<and> eeprom (zeroOutCurrentSensor adc m) = eeprom m
   \<and> flash (zeroOutCurrentSensor adc m) = flash m
   \<and> timeOfLastCheck (zeroOutCurrentSensor adc m) = timeOfLastCheck m
   \<and> timeOfLastSave (zeroOutCurrentSensor adc m) = timeOfLastSave m
   \<and> remainingCapacity_Ah (recalibrateCurrentSensor adc m2) = remainingCapacity_Ah m2
   \<and> lastTime (recalibrateCurrentSensor adc m2) = lastTime m2
   \<and> batteryJuiceLeft (setup1 inp m) = batteryJuiceLeft (load_level m)
   \<and> remainingCapacity_Ah (setup2 inp m2) = remainingCapacity_Ah m2
   \<and> batteryJuiceLeft (step1 (inp\<lparr>buttonLow := True\<rparr>) (m\<lparr>stage := LoopTop\<rparr>))
       = batteryJuiceLeft m
   \<and> remainingCapacity_Ah (step2 (inp\<lparr>buttonLow := True\<rparr>) (m2\<lparr>stage2 := LoopTop\<rparr>))
       = remainingCapacity_Ah m2
   \<and> step1 (inp\<lparr>buttonLow := True\<rparr>) (m\<lparr>stage := ButtonHeld\<rparr>) = m\<lparr>stage := ButtonHeld\<rparr>
   \<and> step2 (inp\<lparr>buttonLow := True\<rparr>) (m2\<lparr>stage2 := ButtonHeld\<rparr>) = m2\<lparr>stage2 := ButtonHeld\<rparr>"
  by (simp add: zeroOutCurrentSensor_def recalibrateCurrentSensor_def setup1_def setup2_def
      step1_def step2_def Let_def)




section \<open>Facts about the arithmetic\<close>

lemma fv_lt_irrefl: "\<not> fv_lt a a"
  by (cases a) simp_all

lemma fv_lt_asym: "fv_lt a b \<Longrightarrow> \<not> fv_lt b a"
  by (cases a; cases b) auto

lemma fv_le_not_lt: "fv_le a b \<Longrightarrow> \<not> fv_lt b a"
  by (cases a; cases b) auto

lemma fv_le_not_nan: "fv_le a b \<Longrightarrow> a \<noteq> NaN \<and> b \<noteq> NaN"
  by (cases a; cases b) auto

lemma zero_literal: "f32_of_double (d_lit 0) = 0"
  by code_simp

lemma zero_of_int: "f32_of_int 0 = 0"
  by code_simp

lemma hour_fraction: "timePassedInHours = 0x3991A2B4"
  by code_simp

lemma hour_fraction2: "deltaTime_hours = 0x3991A2B4"
  by code_simp

section \<open>The dead zone\<close>

text \<open>
  Claim C5. In the sketch that has the dead-zone filter (the first), a current whose
  absolute value is less than \<^verbatim>\<open>CURRENT_NOISE_THRESHOLD\<close> becomes the positive zero, a
  current whose absolute value is greater stays as it is, and so does one whose absolute
  value is the threshold itself: the comparison is \<^verbatim>\<open><\<close>. The charge of the tick is
  counted with the filtered current.
\<close>

theorem dead_zone_filter:
  "(f32_lt (f32_abs amps) CURRENT_NOISE_THRESHOLD \<longrightarrow> ignore_noise amps = 0)
   \<and> (f32_gt (f32_abs amps) CURRENT_NOISE_THRESHOLD \<longrightarrow> ignore_noise amps = amps)
   \<and> (f32_abs amps = CURRENT_NOISE_THRESHOLD \<longrightarrow> ignore_noise amps = amps)
   \<and> batteryJuiceLeft (tick1 inp m)
       = use_juice (ignore_noise (read_amps1 (currentReadings inp) (noLoadVoltage m)))
           (batteryJuiceLeft m)"
  using fv_lt_asym [of "f32_dec (f32_abs amps)" "f32_dec CURRENT_NOISE_THRESHOLD"]
    fv_lt_irrefl [of "f32_dec CURRENT_NOISE_THRESHOLD"]
  by (auto simp add: ignore_noise_def zero_literal f32_lt_def f32_gt_def tick1_def Let_def)

text \<open>At 0.01 A, at -1 A and at -0.05 A, the last one being the threshold negated.\<close>

theorem dead_zone_filter_witness:
  "ignore_noise 0x3C23D70A = 0 \<and> ignore_noise 0xBF800000 = 0xBF800000
   \<and> ignore_noise 0xBD4CCCCD = 0xBD4CCCCD"
proof -
  have 1: "f32_lt (f32_abs 0x3C23D70A) CURRENT_NOISE_THRESHOLD" by code_simp
  have 2: "f32_gt (f32_abs 0xBF800000) CURRENT_NOISE_THRESHOLD" by code_simp
  have 3: "f32_abs 0xBD4CCCCD = CURRENT_NOISE_THRESHOLD" by code_simp
  show ?thesis
    using dead_zone_filter [of "0x3C23D70A"] dead_zone_filter [of "0xBF800000"]
      dead_zone_filter [of "0xBD4CCCCD"] 1 2 3 by simp
qed

section \<open>Persistence\<close>

lemma float_of_bytes_of_float: "float_of_bytes (bytes_of_float w) = w"
  unfolding bytes_of_float_def float_of_bytes.simps
  apply (rule bit_word_eqI)
  apply (auto simp add: bit_simps)
  subgoal for n by (cases "24 \<le> n") simp_all
  done

lemma length_bytes_of_float: "length (bytes_of_float w) = 4"
  by (simp add: bytes_of_float_def)

lemma length_EEPROM_begin: "length (EEPROM_begin n fl) = n"
  by (simp add: EEPROM_begin_def)

lemma EEPROM_begin_same: "length fl = n \<Longrightarrow> EEPROM_begin n fl = fl"
  by (simp add: EEPROM_begin_def)

lemma EEPROM_put_whole: "length data = 4 \<Longrightarrow> EEPROM_put data 0 x = bytes_of_float x"
  by (simp add: EEPROM_put_def length_bytes_of_float)

lemma EEPROM_get_whole: "length data = 4 \<Longrightarrow> EEPROM_get data 0 t = float_of_bytes data"
  by (simp add: EEPROM_get_def)

lemma loaded_level:
  "batteryJuiceLeft (load_level m) =
     (if weird (float_of_bytes (EEPROM_begin 4 (flash m))) then BATTERY_FULL_CAPACITY
      else float_of_bytes (EEPROM_begin 4 (flash m)))"
  by (simp add: load_level_def Let_def EEPROM_get_whole length_EEPROM_begin)

lemma setup1_level: "batteryJuiceLeft (setup1 inp m) = batteryJuiceLeft (load_level m)"
  by (simp add: setup1_def zeroOutCurrentSensor_def Let_def)

lemma erased_flash_weird: "weird (float_of_bytes (EEPROM_begin 4 []))"
proof -
  have "float_of_bytes (EEPROM_begin 4 []) = 0xFFFFFFFF" by code_simp
  moreover have "f32_isnan 0xFFFFFFFF" by code_simp
  ultimately show ?thesis by (simp add: weird_def)
qed

lemma save_level_juice: "batteryJuiceLeft (save_level inp m) = batteryJuiceLeft m"
  by (simp add: save_level_def Let_def)

text \<open>
  Claim C3. \<^verbatim>\<open>setup\<close> reads four bytes of the EEPROM as a \<^verbatim>\<open>float\<close>. When that value is
  a NaN, is below zero or is above \<^verbatim>\<open>BATTERY_FULL_CAPACITY\<close>, the remaining capacity
  starts at \<^verbatim>\<open>BATTERY_FULL_CAPACITY\<close>; otherwise it starts at the loaded value, bit for
  bit. Nothing stored is the first case: erased flash reads as a NaN.
\<close>

theorem startup_fallback:
  "batteryJuiceLeft (setup1 inp m) =
     (if f32_isnan (float_of_bytes (EEPROM_begin 4 (flash m)))
         \<or> f32_lt (float_of_bytes (EEPROM_begin 4 (flash m))) (f32_of_int 0)
         \<or> f32_gt (float_of_bytes (EEPROM_begin 4 (flash m))) BATTERY_FULL_CAPACITY
      then BATTERY_FULL_CAPACITY
      else float_of_bytes (EEPROM_begin 4 (flash m)))
   \<and> batteryJuiceLeft (setup1 inp (power_on [])) = BATTERY_FULL_CAPACITY"
proof -
  have "weird (float_of_bytes (EEPROM_begin 4 (flash (power_on []))))"
    using erased_flash_weird by (simp add: power_on_def)
  then show ?thesis
    by (simp add: setup1_level loaded_level) (simp add: weird_def)
qed

text \<open>With 5 Ah, -1 Ah, 100 Ah and a NaN in the EEPROM.\<close>

theorem startup_fallback_witness:
  "batteryJuiceLeft (setup1 quiet (power_on [0x00, 0x00, 0xA0, 0x40])) = 0x40A00000
   \<and> batteryJuiceLeft (setup1 quiet (power_on [0x00, 0x00, 0x80, 0xBF])) = BATTERY_FULL_CAPACITY
   \<and> batteryJuiceLeft (setup1 quiet (power_on [0x00, 0x00, 0xC8, 0x42])) = BATTERY_FULL_CAPACITY
   \<and> batteryJuiceLeft (setup1 quiet (power_on [0x00, 0x00, 0xC0, 0x7F])) = BATTERY_FULL_CAPACITY"
proof -
  have b: "float_of_bytes (EEPROM_begin 4 [0x00, 0x00, 0xA0, 0x40]) = 0x40A00000"
    "float_of_bytes (EEPROM_begin 4 [0x00, 0x00, 0x80, 0xBF]) = 0xBF800000"
    "float_of_bytes (EEPROM_begin 4 [0x00, 0x00, 0xC8, 0x42]) = 0x42C80000"
    "float_of_bytes (EEPROM_begin 4 [0x00, 0x00, 0xC0, 0x7F]) = 0x7FC00000"
    by code_simp+
  have five: "\<not> f32_isnan 0x40A00000" "\<not> f32_lt 0x40A00000 (f32_of_int 0)"
    "\<not> f32_gt 0x40A00000 BATTERY_FULL_CAPACITY"
    by code_simp+
  have others: "f32_lt 0xBF800000 (f32_of_int 0)" "f32_gt 0x42C80000 BATTERY_FULL_CAPACITY"
    "f32_isnan 0x7FC00000"
    by code_simp+
  show ?thesis
    using startup_fallback [of quiet "power_on [0x00, 0x00, 0xA0, 0x40]"]
      startup_fallback [of quiet "power_on [0x00, 0x00, 0x80, 0xBF]"]
      startup_fallback [of quiet "power_on [0x00, 0x00, 0xC8, 0x42]"]
      startup_fallback [of quiet "power_on [0x00, 0x00, 0xC0, 0x7F]"]
    by (simp add: power_on_def b five others)
qed

section \<open>A display that does not start\<close>

lemma frozen_run1: "stage m = Frozen \<Longrightarrow> run1 inps m = m"
  by (induction inps) (simp_all add: step1_def)

lemma frozen_run2: "stage2 m = Frozen \<Longrightarrow> run2 inps m = m"
  by (induction inps) (simp_all add: step2_def)

text \<open>
  Claim C9. When \<^verbatim>\<open>display.begin\<close> fails in \<^verbatim>\<open>setup\<close>, the program stays in the endless
  loop of \<^verbatim>\<open>setup\<close> whatever happens afterwards: after any number of further steps,
  with any inputs (button pressed, time passing), the state is the one in which \<^verbatim>\<open>setup\<close>
  froze. The first sketch has then loaded the level and printed two lines; no calibration
  has run (the zero-offset is the initial 0, the display is blank), no tick has run and
  nothing was saved (the flash is as it was). The second sketch has only printed its line.
\<close>

theorem no_display_no_operation:
  assumes "\<not> displayBegins inp"
  shows "run1 (inp # inps) (power_on fl)
      = (load_level (power_on fl))
          \<lparr>serial := serial (load_level (power_on fl)) @ [NoScreen], stage := Frozen\<rparr>
    \<and> flash (run1 (inp # inps) (power_on fl)) = fl
    \<and> noLoadVoltage (run1 (inp # inps) (power_on fl)) = 0
    \<and> oled (run1 (inp # inps) (power_on fl)) = Blank
    \<and> CalibratingLine \<notin> set (serial (run1 (inp # inps) (power_on fl)))
    \<and> SavedLine \<notin> set (serial (run1 (inp # inps) (power_on fl)))
    \<and> (\<forall>r. ReadingLine r \<notin> set (serial (run1 (inp # inps) (power_on fl))))
    \<and> run2 (inp # inps) power_on2 = power_on2\<lparr>serial2 := [NoScreen], stage2 := Frozen\<rparr>"
proof -
  have 1: "step1 inp (power_on fl)
      = (load_level (power_on fl))
          \<lparr>serial := serial (load_level (power_on fl)) @ [NoScreen], stage := Frozen\<rparr>"
    using assms by (simp add: step1_def setup1_def power_on_def Let_def)
  have 2: "step2 inp power_on2 = power_on2\<lparr>serial2 := [NoScreen], stage2 := Frozen\<rparr>"
    using assms by (simp add: step2_def setup2_def power_on2_def)
  have 3: "run1 (inp # inps) (power_on fl)
      = (load_level (power_on fl))
          \<lparr>serial := serial (load_level (power_on fl)) @ [NoScreen], stage := Frozen\<rparr>"
    by (simp add: 1 frozen_run1)
  have 4: "run2 (inp # inps) power_on2 = power_on2\<lparr>serial2 := [NoScreen], stage2 := Frozen\<rparr>"
    by (simp add: 2 frozen_run2)
  show ?thesis
    unfolding 3 4 by (simp add: load_level_def power_on_def Let_def)
qed

text \<open>The display fails, then the button is pressed, then 5 seconds (and 70 for the
  save) have passed: nothing but the load and the two lines.\<close>

theorem no_display_no_operation_witness:
  "run1 [quiet\<lparr>displayBegins := False\<rparr>, quiet\<lparr>buttonLow := True\<rparr>,
         quiet\<lparr>millisCheck := 5000, millisSave := 70000\<rparr>] (power_on [])
     = (power_on [])\<lparr>batteryJuiceLeft := BATTERY_FULL_CAPACITY,
          eeprom := [0xFF, 0xFF, 0xFF, 0xFF], serial := [MemoryWeird, NoScreen], stage := Frozen\<rparr>"
proof -
  have h: "\<not> displayBegins (quiet\<lparr>displayBegins := False\<rparr>)" by simp
  have e: "EEPROM_begin 4 [] = [0xFF, 0xFF, 0xFF, 0xFF]" by code_simp
  have "load_level (power_on [])
      = (power_on [])\<lparr>batteryJuiceLeft := BATTERY_FULL_CAPACITY,
          eeprom := [0xFF, 0xFF, 0xFF, 0xFF], serial := [MemoryWeird]\<rparr>"
    using erased_flash_weird
    by (simp add: load_level_def Let_def power_on_def EEPROM_get_def e)
  then show ?thesis
    using no_display_no_operation [OF h, of "[quiet\<lparr>buttonLow := True\<rparr>,
         quiet\<lparr>millisCheck := 5000, millisSave := 70000\<rparr>]" "[]"]
    by (simp add: power_on_def)
qed

section \<open>The time step\<close>

text \<open>
  Claim C10. The charge that a tick subtracts is the current times one constant, the
  \<^verbatim>\<open>float\<close> nearest to 1/3600 (\<^verbatim>\<open>1.0 / 3600.0\<close> in the first sketch and
  \<^verbatim>\<open>1000.0 / 3600000.0\<close> in the second are the same \<^verbatim>\<open>float\<close>). No reading of \<^verbatim>\<open>millis()\<close>
  enters the new remaining capacity: a pass of \<^verbatim>\<open>loop\<close> that finds at least 1000 ms
  elapsed, however many more, runs this one tick.
\<close>

theorem fixed_time_step:
  "timePassedInHours = 0x3991A2B4 \<and> deltaTime_hours = 0x3991A2B4
   \<and> f32_dec 0x3991A2B4 = Fin False (2386093 / 8589934592)
   \<and> batteryJuiceLeft (tick1 inp m)
       = keep_in_range BATTERY_FULL_CAPACITY
           (f32_sub (batteryJuiceLeft m)
              (f32_mul (ignore_noise (read_amps1 (currentReadings inp) (noLoadVoltage m)))
                 0x3991A2B4))
   \<and> remainingCapacity_Ah (tick2 inp m2)
       = keep_in_range BATTERY_CAPACITY_Ah
           (f32_sub (remainingCapacity_Ah m2)
              (f32_mul (read_current2 (currentReadings inp) (zeroCurrentVoltage m2)) 0x3991A2B4))
   \<and> (1000 \<le> millisCheck inp - timeOfLastCheck m \<longrightarrow>
        batteryJuiceLeft (after_button1 inp m) = batteryJuiceLeft (tick1 inp m))
   \<and> (1000 \<le> millisCheck inp - lastTime m2 \<longrightarrow>
        remainingCapacity_Ah (after_button2 inp m2) = remainingCapacity_Ah (tick2 inp m2))"
proof -
  have "f32_dec 0x3991A2B4 = Fin False (2386093 / 8589934592)" by code_simp
  then show ?thesis
    by (simp add: hour_fraction hour_fraction2
        tick1_def tick2_def use_juice_def count_coulombs_def Let_def
        after_button1_def after_button2_def save_level_juice)
qed

text \<open>Ten seconds after the last tick.\<close>

theorem fixed_time_step_witness:
  "batteryJuiceLeft (after_button1 (quiet\<lparr>millisCheck := 10000\<rparr>) (power_on []))
     = batteryJuiceLeft (tick1 (quiet\<lparr>millisCheck := 10000\<rparr>) (power_on []))
   \<and> remainingCapacity_Ah (after_button2 (quiet\<lparr>millisCheck := 10000\<rparr>) power_on2)
     = remainingCapacity_Ah (tick2 (quiet\<lparr>millisCheck := 10000\<rparr>) power_on2)"
proof -
  have 1: "1000 \<le> millisCheck (quiet\<lparr>millisCheck := 10000\<rparr>) - timeOfLastCheck (power_on [])"
    by (simp add: power_on_def)
  have 2: "1000 \<le> millisCheck (quiet\<lparr>millisCheck := 10000\<rparr>) - lastTime power_on2"
    by (simp add: power_on2_def)
  show ?thesis
    using fixed_time_step [of "quiet\<lparr>millisCheck := 10000\<rparr>" "power_on []" power_on2] 1 2
    by simp
qed


section \<open>The averaged reading\<close>

lemma sum_all_but_first:
  "(\<Sum>k = 0..<200. uint ((\<lambda>i::nat. if i = 0 then 0 else 1 :: 16 word) k)) = 199"
proof -
  have "(\<Sum>k = 0..<200. uint ((\<lambda>i::nat. if i = 0 then 0 else 1 :: 16 word) k))
      = (\<Sum>k = 0..<200::nat. if k = 0 then 0 else (1::int))"
    by (intro sum.cong) simp_all
  also have "\<dots> = (\<Sum>k \<in> {0..<200::nat} - {0}. (1::int))"
    by (simp add: sum.If_cases Diff_eq)
  also have "\<dots> = 199" by simp
  finally show ?thesis .
qed

text \<open>
  Claim C7 says that the averaged current reading is the exact mean of the samples,
  converted to volts. The sketches divide the sum of the readings by their number in
  integers, so the fraction of a count is lost before the conversion: with one reading
  of 0 and 199 readings of 1 the mean is 0.995 counts, which the formula converts to
  0.0008 V (\<^verbatim>\<open>0x3A523200\<close>), and the sketch reports 0 V.
\<close>

theorem averaging_truncates_counterexample:
  "currentSensorVoltage (\<lambda>i. if i = 0 then 0 else 1)
     \<noteq> spec_readAveragedCurrentVoltage (\<lambda>i. if i = 0 then 0 else 1) SAMPLES_TO_AVERAGE
         ESP32_VOLTAGE"
proof -
  have "average_reading (\<lambda>i. if i = 0 then 0 else 1) 200 = 0"
    by (simp only: average_reading_eq [of 200] sum_all_but_first) simp
  moreover have "counts_to_volts 0 ESP32_VOLTAGE = 0" by code_simp
  ultimately have 1: "currentSensorVoltage (\<lambda>i. if i = 0 then 0 else 1) = 0"
    by (simp add: currentSensorVoltage_def SAMPLES_TO_AVERAGE_def)
  have "f32_of_double (d_mul (d_div (d_lit (199 / 200)) (d_lit 4095)) (d_of_f32 ESP32_VOLTAGE))
      = 0x3A523200"
    by code_simp
  then have 2: "spec_readAveragedCurrentVoltage (\<lambda>i. if i = 0 then 0 else 1)
      SAMPLES_TO_AVERAGE ESP32_VOLTAGE = 0x3A523200"
    unfolding spec_readAveragedCurrentVoltage_def SAMPLES_TO_AVERAGE_def sum_all_but_first
    by simp
  show ?thesis unfolding 1 2 by simp
qed

text \<open>
  Claim C7, as amended. The averaged reading is the sum of the raw samples divided by
  their number with the fraction dropped, an integer count, converted to volts by the
  linear formula: in the ticks (200 and 400 samples) and in the calibrations (500 and
  1000 samples).
\<close>

theorem averaging_truncates:
  "average_reading adc 200 = word_of_int ((\<Sum>k = 0..<200. uint (adc k)) div 200)
   \<and> average_reading adc 400 = word_of_int ((\<Sum>k = 0..<400. uint (adc k)) div 400)
   \<and> average_reading adc 500 = word_of_int ((\<Sum>k = 0..<500. uint (adc k)) div 500)
   \<and> average_reading adc 1000 = word_of_int ((\<Sum>k = 0..<1000. uint (adc k)) div 1000)
   \<and> currentSensorVoltage adc
       = counts_to_volts (word_of_int ((\<Sum>k = 0..<200. uint (adc k)) div 200)) ESP32_VOLTAGE
   \<and> sensor_voltage adc
       = counts_to_volts (word_of_int ((\<Sum>k = 0..<400. uint (adc k)) div 400))
           ADC_REFERENCE_VOLTAGE"
  using average_reading_eq [of 200 adc] average_reading_eq [of 400 adc]
    average_reading_eq [of 500 adc] average_reading_eq [of 1000 adc]
  by (simp add: currentSensorVoltage_def sensor_voltage_def SAMPLES_TO_AVERAGE_def
      CURRENT_AVG_SAMPLES_def)

section \<open>Rounding\<close>

text \<open>The facts about rounding that the invariant needs: the rounded magnitude decodes
  to the significand times the unit in the last place, and rounding never passes a value
  that the format represents, so a bound that is such a value survives every operation.\<close>

lemma bit_length_nonpos: "n \<le> 0 \<Longrightarrow> bit_length n = 0"
  by (subst bit_length.simps) simp

lemma bit_length_pos: "0 < n \<Longrightarrow> bit_length n = 1 + bit_length (n div 2)"
  by (subst bit_length.simps) simp

lemma bit_length_ge1: "0 < n \<Longrightarrow> 1 \<le> bit_length n"
proof (induction n rule: bit_length.induct)
  case (1 n)
  show ?case
  proof (cases "0 < n div 2")
    case True
    with 1 show ?thesis by (simp add: bit_length_pos)
  next
    case False
    then have "bit_length (n div 2) = 0" by (simp add: bit_length_nonpos)
    with 1 show ?thesis by (simp add: bit_length_pos)
  qed
qed

lemma bit_length_bounds:
  "0 < n \<Longrightarrow> 2 ^ nat (bit_length n - 1) \<le> n \<and> n < 2 ^ nat (bit_length n)"
proof (induction n rule: bit_length.induct)
  case (1 n)
  show ?case
  proof (cases "0 < n div 2")
    case False
    with 1(2) have "n = 1" by presburger
    then show ?thesis by (simp add: bit_length_pos bit_length_nonpos)
  next
    case True
    define h where "h = n div 2"
    define L where "L = bit_length h"
    have L1: "1 \<le> L" using True bit_length_ge1 by (simp add: L_def h_def)
    have ih: "2 ^ nat (L - 1) \<le> h" "h < 2 ^ nat L"
      using 1(1) 1(2) True by (simp_all add: L_def h_def)
    have bl: "bit_length n = 1 + L" using 1(2) by (simp add: bit_length_pos L_def h_def)
    have n: "2 * h \<le> n" "n \<le> 2 * h + 1" by (simp_all add: h_def)
    have p: "(2::int) ^ nat L = 2 * 2 ^ nat (L - 1)"
      using L1 by (metis Suc_nat_eq_nat_zadd1 diff_add_cancel diff_ge_0_iff_ge power_Suc add.commute)
    have q: "(2::int) ^ nat (1 + L) = 2 * 2 ^ nat L"
      using L1 by (simp add: nat_add_distrib)
    show ?thesis
      unfolding bl using ih n p q by simp
  qed
qed



lemma powi_nat: "0 \<le> l \<Longrightarrow> (2::rat) powi l = 2 ^ nat l"
  by (simp add: power_int_def)

lemma of_int_le_pow2: "(N::int) \<le> 2 ^ n \<Longrightarrow> (of_int N :: rat) \<le> 2 ^ n"
  by (metis of_int_le_iff of_int_numeral of_int_power)

lemma pow2_le_of_int: "2 ^ n \<le> (N::int) \<Longrightarrow> (2 ^ n :: rat) \<le> of_int N"
  by (metis of_int_le_iff of_int_numeral of_int_power)

lemma ilog2_lower: assumes "0 < x" shows "2 powi (ilog2 x) \<le> x"
proof (cases "1 \<le> x")
  case True
  then have f: "0 < \<lfloor>x\<rfloor>" by simp
  have l: "0 \<le> bit_length \<lfloor>x\<rfloor> - 1" using bit_length_ge1 [OF f] by simp
  have "(2::int) ^ nat (bit_length \<lfloor>x\<rfloor> - 1) \<le> \<lfloor>x\<rfloor>"
    using bit_length_bounds [OF f] by simp
  then have "(2 ^ nat (bit_length \<lfloor>x\<rfloor> - 1) :: rat) \<le> of_int \<lfloor>x\<rfloor>"
    by (rule pow2_le_of_int)
  also have "\<dots> \<le> x" by simp
  finally show ?thesis using True l by (simp add: ilog2_def powi_nat)
next
  case False
  define N where "N = \<lceil>1 / x\<rceil>"
  have "1 < 1 / x" using False assms by simp
  then have N2: "2 \<le> N" unfolding N_def by (simp add: less_ceiling_iff)
  have N1: "0 < N - 1" using N2 by simp
  define L where "L = bit_length (N - 1)"
  have L1: "1 \<le> L" using bit_length_ge1 [OF N1] by (simp add: L_def)
  have "N - 1 < 2 ^ nat L" using bit_length_bounds [OF N1] by (simp add: L_def)
  then have "N \<le> 2 ^ nat L" by simp
  then have "(of_int N :: rat) \<le> 2 ^ nat L" by (rule of_int_le_pow2)
  moreover have "1 / x \<le> of_int N" unfolding N_def by simp
  ultimately have "1 / x \<le> 2 ^ nat L" by (rule order_trans [rotated])
  then have "1 \<le> 2 ^ nat L * x" using assms by (simp add: field_simps)
  then have "1 / 2 ^ nat L \<le> x" by (simp add: field_simps)
  moreover have "(2::rat) powi (- L) = 1 / 2 ^ nat L"
    using L1 by (simp add: power_int_minus powi_nat field_simps)
  ultimately show ?thesis
    using False by (simp add: ilog2_def N_def L_def)
qed

lemma ilog2_upper: assumes "0 < x" shows "x < 2 powi (ilog2 x + 1)"
proof (cases "1 \<le> x")
  case True
  then have f: "0 < \<lfloor>x\<rfloor>" by simp
  have l: "1 \<le> bit_length \<lfloor>x\<rfloor>" using bit_length_ge1 [OF f] by simp
  have "\<lfloor>x\<rfloor> < 2 ^ nat (bit_length \<lfloor>x\<rfloor>)"
    using bit_length_bounds [OF f] by simp
  then have "\<lfloor>x\<rfloor> + 1 \<le> 2 ^ nat (bit_length \<lfloor>x\<rfloor>)" by simp
  then have "(of_int (\<lfloor>x\<rfloor> + 1) :: rat) \<le> 2 ^ nat (bit_length \<lfloor>x\<rfloor>)"
    by (rule of_int_le_pow2)
  moreover have "x < of_int (\<lfloor>x\<rfloor> + 1)" by linarith
  ultimately have "x < 2 ^ nat (bit_length \<lfloor>x\<rfloor>)" by (rule less_le_trans [rotated])
  then show ?thesis using True l by (simp add: ilog2_def powi_nat)
next
  case False
  define N where "N = \<lceil>1 / x\<rceil>"
  have "1 < 1 / x" using False assms by simp
  then have N2: "2 \<le> N" unfolding N_def by (simp add: less_ceiling_iff)
  have N1: "0 < N - 1" using N2 by simp
  define L where "L = bit_length (N - 1)"
  have L1: "1 \<le> L" using bit_length_ge1 [OF N1] by (simp add: L_def)
  have "2 ^ nat (L - 1) \<le> N - 1" using bit_length_bounds [OF N1] by (simp add: L_def)
  then have "(2 ^ nat (L - 1) :: rat) \<le> of_int (N - 1)" by (rule pow2_le_of_int)
  moreover have "of_int (N - 1) < 1 / x" unfolding N_def by linarith
  ultimately have "2 ^ nat (L - 1) < 1 / x" by (rule le_less_trans)
  then have "2 ^ nat (L - 1) * x < 1" using assms by (simp add: field_simps)
  then have "x < 1 / 2 ^ nat (L - 1)" by (simp add: field_simps)
  moreover have "(2::rat) powi (- L + 1) = 1 / 2 ^ nat (L - 1)"
  proof -
    have "(2::rat) powi (- L + 1) = 2 powi (- (L - 1))" by simp
    also have "\<dots> = 1 / 2 powi (L - 1)" by (simp only: power_int_minus_divide)
    also have "\<dots> = 1 / 2 ^ nat (L - 1)" using L1 by (simp add: powi_nat)
    finally show ?thesis .
  qed
  ultimately show ?thesis
    using False by (simp add: ilog2_def N_def L_def)
qed



lemma powi_pos: "0 < (2::rat) powi a"
  by (simp add: power_int_def)

lemma powi_add: "(2::rat) powi (a + b) = 2 powi a * 2 powi b"
  by (simp add: power_int_add)

lemma powi_less_cancel: "(2::rat) powi a < 2 powi b \<Longrightarrow> a < b"
  using power_int_increasing [of b a "2::rat"] by (cases "a < b") simp_all

lemma divide_powi: "x / (2::rat) powi e = x * 2 powi (- e)"
  by (simp add: power_int_minus field_simps)

lemma rhe_le: "y \<le> of_int N \<Longrightarrow> rhe y \<le> N"
proof -
  assume a: "y \<le> of_int N"
  then have f: "\<lfloor>y\<rfloor> \<le> N" by (simp add: floor_le_iff)
  show ?thesis
  proof (cases "\<lfloor>y\<rfloor> = N")
    case True
    then have "y = of_int \<lfloor>y\<rfloor>" using a by (metis antisym of_int_floor_le)
    then have "y - of_int \<lfloor>y\<rfloor> < 1 / 2" by simp
    then show ?thesis using True by (simp add: rhe_def rhe_at_def)
  next
    case False
    then have "\<lfloor>y\<rfloor> + 1 \<le> N" using f by simp
    then show ?thesis using f by (simp add: rhe_def rhe_at_def)
  qed
qed

lemma rhe_ge: "of_int N \<le> y \<Longrightarrow> N \<le> rhe y"
proof -
  assume "of_int N \<le> y"
  then have "N \<le> \<lfloor>y\<rfloor>" by (simp add: le_floor_iff)
  then show ?thesis by (simp add: rhe_def rhe_at_def)
qed

lemma qexp_ge: "emin fmt \<le> qexp fmt x"
  by (simp add: qexp_def)

lemma qexp_upper:
  assumes "0 < x" shows "x < 2 powi (qexp fmt x + int (frac_bits fmt) + 1)"
proof -
  have "ilog2 x + 1 \<le> qexp fmt x + int (frac_bits fmt) + 1" by (simp add: qexp_def)
  then have "(2::rat) powi (ilog2 x + 1) \<le> 2 powi (qexp fmt x + int (frac_bits fmt) + 1)"
    by (intro power_int_increasing) simp_all
  with ilog2_upper [OF assms] show ?thesis by (rule less_le_trans)
qed

lemma qexp_lower:
  assumes "0 < x" "emin fmt < qexp fmt x"
  shows "2 powi (qexp fmt x + int (frac_bits fmt)) \<le> x"
proof -
  have "qexp fmt x = ilog2 x - int (frac_bits fmt)" using assms(2) by (simp add: qexp_def max_def split: if_splits)
  then have "qexp fmt x + int (frac_bits fmt) = ilog2 x" by simp
  with ilog2_lower [OF assms(1)] show ?thesis by simp
qed

lemma qexp_le:
  assumes "0 < x" "x < 2 powi (k + int (frac_bits fmt) + 1)" "emin fmt \<le> k"
  shows "qexp fmt x \<le> k"
proof -
  have "(2::rat) powi (ilog2 x) < 2 powi (k + int (frac_bits fmt) + 1)"
    using ilog2_lower [OF assms(1)] assms(2) by (rule le_less_trans)
  then have "ilog2 x < k + int (frac_bits fmt) + 1" by (rule powi_less_cancel)
  then show ?thesis using assms(3) by (simp add: qexp_def)
qed

text \<open>The rounded significand.\<close>

lemma significand_bounds:
  fixes fmt :: format and x :: rat
  assumes "0 < x"
  defines "m \<equiv> rhe (x / 2 powi (qexp fmt x))"
  shows "0 \<le> m" "m \<le> 2 * 2 ^ frac_bits fmt"
    and "emin fmt < qexp fmt x \<Longrightarrow> 2 ^ frac_bits fmt \<le> m"
proof -
  let ?e = "qexp fmt x"
  let ?y = "x / 2 powi ?e"
  have "0 \<le> ?y" using assms(1) powi_pos [of ?e] by simp
  then have "of_int 0 \<le> ?y" by simp
  then show "0 \<le> m" unfolding m_def by (rule rhe_ge)
  have "x < 2 powi (?e + (int (frac_bits fmt) + 1))"
    using qexp_upper [OF assms(1), of fmt] by (simp add: add.assoc)
  then have "x < 2 powi ?e * 2 powi (int (frac_bits fmt) + 1)" by (simp only: powi_add)
  then have "?y < 2 powi (int (frac_bits fmt) + 1)"
    using powi_pos [of ?e] by (simp add: field_simps)
  also have "(2::rat) powi (int (frac_bits fmt) + 1) = of_int (2 * 2 ^ frac_bits fmt)"
    by (simp add: power_int_def nat_add_distrib)
  finally have "?y \<le> of_int (2 * 2 ^ frac_bits fmt)" by simp
  then show "m \<le> 2 * 2 ^ frac_bits fmt" unfolding m_def by (rule rhe_le)
  assume "emin fmt < ?e"
  then have "2 powi (?e + int (frac_bits fmt)) \<le> x" by (rule qexp_lower [OF assms(1)])
  then have "2 powi ?e * 2 powi (int (frac_bits fmt)) \<le> x" by (simp only: powi_add)
  then have "2 powi (int (frac_bits fmt)) \<le> ?y"
    using powi_pos [of ?e] by (simp add: field_simps)
  then have "of_int (2 ^ frac_bits fmt) \<le> ?y" by simp
  then show "2 ^ frac_bits fmt \<le> m" unfolding m_def by (rule rhe_ge)
qed



text \<open>Decoding what was encoded.\<close>

lemma mag_val_encoded:
  fixes fmt :: format and e m :: int
  defines "P \<equiv> 2 ^ frac_bits fmt"
  assumes "0 \<le> m" "m \<le> 2 * P" "emin fmt \<le> e" "emin fmt < e \<Longrightarrow> P \<le> m"
  shows "mag_val fmt ((e - emin fmt) * P + m) = of_int m * 2 powi e"
proof -
  have P: "0 < P" by (simp add: P_def)
  consider "m < P" | "P \<le> m" "m < 2 * P" | "m = 2 * P" using assms(3) by linarith
  then show ?thesis
  proof cases
    case 1
    then have e: "e = emin fmt" using assms(4,5) by linarith
    show ?thesis
    proof (cases "m = 0")
      case True
      then show ?thesis by (simp add: e mag_val_def)
    next
      case False
      have "m div P = 0" "m mod P = m" using 1 assms(2) by simp_all
      then show ?thesis using False by (simp add: e mag_val_def mag_of_def P_def [symmetric])
    qed
  next
    case 2
    define r where "r = m - P"
    have r: "0 \<le> r" "r < P" using 2 by (simp_all add: r_def)
    have b: "(e - emin fmt) * P + m = (e - emin fmt + 1) * P + r"
      by (simp add: r_def algebra_simps)
    have d: "((e - emin fmt + 1) * P + r) div P = e - emin fmt + 1"
      using r P by simp
    have mo: "((e - emin fmt + 1) * P + r) mod P = r"
      using r P by simp
    have nz: "(e - emin fmt + 1) * P + r \<noteq> 0"
    proof -
      have "0 < (e - emin fmt + 1) * P" using assms(4) P by simp
      then show ?thesis using r(1) by linarith
    qed
    have E: "e - emin fmt + 1 \<noteq> 0" using assms(4) by simp
    have "P + r = m" by (simp add: r_def)
    then show ?thesis
      unfolding b mag_val_def using nz E
      by (simp only: d mo mag_of_def P_def [symmetric] if_False) simp
  next
    case 3
    have b: "(e - emin fmt) * P + m = (e - emin fmt + 2) * P"
      by (simp add: 3 algebra_simps)
    have d: "((e - emin fmt + 2) * P) div P = e - emin fmt + 2" using P by simp
    have mo: "((e - emin fmt + 2) * P) mod P = 0" by simp
    have nz: "(e - emin fmt + 2) * P \<noteq> 0" using assms(4) P by simp
    have E: "e - emin fmt + 2 \<noteq> 0" using assms(4) by simp
    have "of_int P * (2::rat) powi (e + 1) = of_int (2 * P) * 2 powi e"
      by (simp add: powi_add)
    then show ?thesis
      unfolding b mag_val_def using nz E
      by (simp only: d mo mag_of_def P_def [symmetric] if_False 3) (simp add: add.commute)
  qed
qed

lemma round_below:
  fixes fmt :: format and x :: rat and n k :: int
  assumes "0 < x" "x \<le> of_int n * 2 powi k" "n < 2 * 2 ^ frac_bits fmt" "emin fmt \<le> k"
  shows "qexp fmt x \<le> k"
    and "(of_int (rhe (x / 2 powi (qexp fmt x))) :: rat) * 2 powi (qexp fmt x)
          \<le> of_int n * 2 powi k"
proof -
  let ?e = "qexp fmt x"
  have "(of_int n :: rat) < of_int (2 * 2 ^ frac_bits fmt)"
    using assms(3) by (simp only: of_int_less_iff)
  also have "\<dots> = 2 powi (int (frac_bits fmt) + 1)"
    by (simp add: power_int_def nat_add_distrib)
  finally have "of_int n * (2::rat) powi k < 2 powi (int (frac_bits fmt) + 1) * 2 powi k"
    using powi_pos [of k] by simp
  also have "\<dots> = 2 powi (k + int (frac_bits fmt) + 1)"
    by (simp add: powi_add [symmetric] ac_simps)
  finally have "x < 2 powi (k + int (frac_bits fmt) + 1)"
    using assms(2) by simp
  then show ek: "?e \<le> k" using assms(1,4) by (intro qexp_le)
  have "(2::rat) powi k = 2 powi (k - ?e) * 2 powi ?e"
    by (simp add: powi_add [symmetric])
  also have "(2::rat) powi (k - ?e) = of_int (2 ^ nat (k - ?e))"
    using ek by (simp add: power_int_def)
  finally have c: "of_int n * (2::rat) powi k = of_int (n * 2 ^ nat (k - ?e)) * 2 powi ?e"
    by simp
  have "x / 2 powi ?e \<le> of_int (n * 2 ^ nat (k - ?e))"
    using assms(2) powi_pos [of ?e] unfolding c by (simp add: field_simps)
  then have "rhe (x / 2 powi ?e) \<le> n * 2 ^ nat (k - ?e)" by (rule rhe_le)
  then have "(of_int (rhe (x / 2 powi ?e)) :: rat) \<le> of_int (n * 2 ^ nat (k - ?e))"
    by (simp only: of_int_le_iff)
  then show "(of_int (rhe (x / 2 powi ?e)) :: rat) * 2 powi ?e \<le> of_int n * 2 powi k"
    unfolding c using powi_pos [of ?e] by (simp only: mult_le_cancel_right_pos)
qed

lemma fl_round_Fin:
  fixes fmt :: format and n k :: int
  assumes "0 \<le> x" "x \<le> of_int n * 2 powi k" "n < 2 * 2 ^ frac_bits fmt"
    and "emin fmt \<le> k" "k \<le> emin fmt + 2 ^ exp_bits fmt - 4"
  shows "\<exists>y. fl_round fmt (Fin s x) = Fin s y \<and> 0 \<le> y \<and> y \<le> of_int n * 2 powi k
    \<and> (x = 0 \<longrightarrow> y = 0)"
proof -
  let ?P = "(2::int) ^ frac_bits fmt"
  have P: "0 < ?P" by simp
  have inf: "0 < inf_mag fmt"
  proof -
    have "(4::int) \<le> 2 ^ exp_bits fmt" using assms(4,5) by linarith
    then show ?thesis by (simp add: inf_mag_def)
  qed
  show ?thesis
  proof (cases "x = 0")
    case True
    have "fl_round fmt (Fin s x) = Fin s 0"
      using True inf by (simp add: fl_round_def round_mag_def of_mag_def mag_val_def)
    then show ?thesis using assms(1,2) True by simp
  next
    case False
    then have xp: "0 < x" using assms(1) by simp
    let ?e = "qexp fmt x"
    let ?m = "rhe (x / 2 powi ?e)"
    have m: "0 \<le> ?m" "?m \<le> 2 * ?P" "emin fmt < ?e \<Longrightarrow> ?P \<le> ?m"
      using significand_bounds [OF xp, of fmt] by simp_all
    have e: "emin fmt \<le> ?e" by (rule qexp_ge)
    have ek: "?e \<le> k" and le: "(of_int ?m :: rat) * 2 powi ?e \<le> of_int n * 2 powi k"
      using round_below [OF xp assms(2,3,4)] by simp_all
    let ?bits = "(?e - emin fmt) * ?P + ?m"
    have "?bits \<le> (?e - emin fmt) * ?P + 2 * ?P" using m(2) by simp
    also have "\<dots> = (?e - emin fmt + 2) * ?P" by (simp add: algebra_simps)
    also have "\<dots> \<le> (2 ^ exp_bits fmt - 2) * ?P"
      using ek assms(5) P by (intro mult_right_mono) simp_all
    also have "\<dots> < (2 ^ exp_bits fmt - 1) * ?P"
      using P by (simp add: algebra_simps)
    finally have fits: "?bits < inf_mag fmt" by (simp add: inf_mag_def)
    have val: "mag_val fmt ?bits = (of_int ?m :: rat) * 2 powi ?e"
      using m e by (intro mag_val_encoded) simp_all
    have "round_mag fmt x = ?bits"
      using False fits by (simp add: round_mag_def round_at_def)
    then have "fl_round fmt (Fin s x) = Fin s (of_int ?m * 2 powi ?e)"
      using fits val by (simp add: fl_round_def of_mag_def)
    moreover have "(0::rat) \<le> of_int ?m * 2 powi ?e"
      using m(1) powi_pos [of ?e] by simp
    ultimately show ?thesis using le False by simp
  qed
qed

lemma fl_round_at_most:
  fixes fmt :: format and n k :: int
  assumes "at_most (of_int n * 2 powi k) v" "n < 2 * 2 ^ frac_bits fmt"
    and "emin fmt \<le> k" "k \<le> emin fmt + 2 ^ exp_bits fmt - 4"
  shows "at_most (of_int n * 2 powi k) (fl_round fmt v)"
proof -
  obtain s x where v: "v = Fin s x" and x: "0 \<le> x" "x \<le> of_int n * 2 powi k"
    using assms(1) by (cases v) (simp_all add: at_most_def)
  obtain y where "fl_round fmt (Fin s x) = Fin s y" "0 \<le> y" "y \<le> of_int n * 2 powi k"
    "x = 0 \<longrightarrow> y = 0"
    using fl_round_Fin [OF x assms(2,3,4), of s] by blast
  then show ?thesis unfolding v by (simp add: at_most_def)
qed

lemma fl_round_nonneg:
  fixes fmt :: format and n k :: int
  assumes "at_most (of_int n * 2 powi k) v" "nonneg v" "n < 2 * 2 ^ frac_bits fmt"
    and "emin fmt \<le> k" "k \<le> emin fmt + 2 ^ exp_bits fmt - 4"
  shows "nonneg (fl_round fmt v)"
proof -
  obtain s x where v: "v = Fin s x" and x: "0 \<le> x" "x \<le> of_int n * 2 powi k"
    using assms(1) by (cases v) (simp_all add: at_most_def)
  have sx: "s \<longrightarrow> x = 0" using assms(2) by (simp add: v nonneg_def)
  obtain y where "fl_round fmt (Fin s x) = Fin s y" "0 \<le> y" "y \<le> of_int n * 2 powi k"
    "x = 0 \<longrightarrow> y = 0"
    using fl_round_Fin [OF x assms(3,4,5), of s] by blast
  then show ?thesis unfolding v using sx by (simp add: nonneg_def)
qed

text \<open>The two formats, and the bounds that the sketches meet: powers of two and 100.\<close>

lemma round32_at_most:
  assumes "at_most (of_int n * 2 powi k) v" "n < 16777216" "- 149 \<le> k" "k \<le> 103"
  shows "at_most (of_int n * 2 powi k) (fl_round binary32 v)"
  using assms by (intro fl_round_at_most) (simp_all add: binary32_def emin_def)

lemma round64_at_most:
  assumes "at_most (of_int n * 2 powi k) v" "n < 9007199254740992" "- 1074 \<le> k" "k \<le> 970"
  shows "at_most (of_int n * 2 powi k) (fl_round binary64 v)"
  using assms by (intro fl_round_at_most) (simp_all add: binary64_def emin_def)

lemma round32_nonneg:
  assumes "at_most (of_int n * 2 powi k) v" "nonneg v" "n < 16777216" "- 149 \<le> k" "k \<le> 103"
  shows "nonneg (fl_round binary32 v)"
  using assms by (intro fl_round_nonneg [where n = n and k = k]) (simp_all add: binary32_def emin_def)

lemma round64_nonneg:
  assumes "at_most (of_int n * 2 powi k) v" "nonneg v" "n < 9007199254740992"
    "- 1074 \<le> k" "k \<le> 970"
  shows "nonneg (fl_round binary64 v)"
  using assms by (intro fl_round_nonneg [where n = n and k = k]) (simp_all add: binary64_def emin_def)

lemma inf_mag32: "inf_mag binary32 = 0x7F800000"
  by (simp add: inf_mag_def binary32_def)

lemma sign_magnitude:
  assumes "0 \<le> r" "r < 2 ^ 31"
  shows "uint (take_bit 31 (sign_word s + word_of_int r :: 32 word)) = r"
    and "bit (sign_word s + word_of_int r :: 32 word) 31 = s"
proof -
  define k :: int where "k = (if s then 2 ^ 31 else 0) + r"
  have w: "sign_word s + word_of_int r = (word_of_int k :: 32 word)"
    by (simp add: sign_word_def k_def)
  have t: "take_bit 31 k = r"
    using assms by (simp add: take_bit_eq_mod k_def)
  have b: "bit k 31 = s"
    using assms by (simp add: bit_iff_odd k_def)
  have "uint (take_bit 31 (word_of_int k :: 32 word)) = take_bit 31 k"
    by (simp add: unsigned_take_bit_eq uint_word_of_int_eq)
  then show "uint (take_bit 31 (sign_word s + word_of_int r :: 32 word)) = r"
    unfolding w t .
  show "bit (sign_word s + word_of_int r :: 32 word) 31 = s"
    unfolding w using b by (simp add: bit_word_of_int_iff)
qed

lemma inf_mag_nonneg: "0 \<le> inf_mag fmt"
  by (simp add: inf_mag_def)

lemma round_mag_le: "round_mag fmt x \<le> inf_mag fmt"
  using inf_mag_nonneg [of fmt] by (simp add: round_mag_def round_at_def)

lemma round_mag_nonneg:
  assumes "0 \<le> x"
  shows "0 \<le> round_mag fmt x"
proof -
  show "0 \<le> round_mag fmt x"
  proof (cases "x = 0")
    case True then show ?thesis by (simp add: round_mag_def)
  next
    case False
    then have xp: "0 < x" using assms by simp
    have "0 \<le> (qexp fmt x - emin fmt) * 2 ^ frac_bits fmt"
      using qexp_ge [of fmt x] by simp
    moreover have "0 \<le> rhe (x / 2 powi qexp fmt x)"
      using significand_bounds(1) [OF xp] by simp
    moreover have "0 \<le> inf_mag fmt" by (rule inf_mag_nonneg)
    ultimately show ?thesis using False by (simp add: round_mag_def round_at_def)
  qed
qed

lemma f32_dec_enc:
  assumes "wf v" shows "f32_dec (f32_enc v) = fl_round binary32 v"
proof (cases v)
  case NaN
  have "f32_dec 0x7FC00000 = NaN" by code_simp
  then show ?thesis by (simp add: NaN f32_enc_def fl_round_def)
next
  case (Inf s)
  have "f32_dec 0x7F800000 = Inf False" "f32_dec 0xFF800000 = Inf True" by code_simp+
  then show ?thesis by (cases s) (simp_all add: Inf f32_enc_def fl_round_def sign_word_def)
next
  case (Fin s x)
  then have x: "0 \<le> x" using assms by (simp add: wf_def)
  let ?r = "round_mag binary32 x"
  have r: "0 \<le> ?r" "?r \<le> 0x7F800000"
    using round_mag_nonneg [OF x, of binary32] round_mag_le [of binary32 x]
    by (simp_all add: inf_mag32)
  then have "?r < 2 ^ 31" by simp
  with r(1) show ?thesis
    by (simp only: Fin f32_enc_def fval.case f32_dec_def fl_round_def sign_magnitude)
qed

lemma fl_round_not_nan: "v \<noteq> NaN \<Longrightarrow> fl_round fmt v \<noteq> NaN"
  using round_mag_le [of fmt] by (cases v) (simp_all add: fl_round_def of_mag_def not_less)

lemma wf_f32_dec: "wf (f32_dec w)"
proof -
  have "0 \<le> mag_val binary32 (uint (take_bit 31 w))"
    by (simp add: mag_val_def mag_of_def pos_imp_zdiv_nonneg_iff powi_pos less_imp_le)
  then show ?thesis by (simp add: f32_dec_def of_mag_def wf_def)
qed

section \<open>The clamp invariant\<close>

subsection \<open>The constants\<close>

lemma dec_zero: "f32_dec 0 = Fin False 0"
  by code_simp

lemma dec_full: "f32_dec BATTERY_FULL_CAPACITY = Fin False (12650021 / 1048576)"
  by code_simp

lemma dec_sensitivity: "f32_dec CURRENT_SENSITIVITY = Fin False (3103785 / 16777216)"
  by code_simp

lemma dec_hour_fraction: "f32_dec 0x3991A2B4 = Fin False (2386093 / 8589934592)"
  by code_simp

lemma dec_hundred: "f32_dec 0x42C80000 = Fin False 100"
  by code_simp

lemma lit_4095: "d_lit 4095 = Fin False 4095"
  by code_simp

lemma lit_100: "d_lit 100 = Fin False 100"
  by code_simp

lemma reference_voltage: "d_of_f32 ESP32_VOLTAGE = Fin False (13841203 / 4194304)"
  by code_simp

subsection \<open>Values that stay numbers\<close>

lemma wf_fv_neg: "wf a \<Longrightarrow> wf (fv_neg a)"
  by (cases a) (simp_all add: wf_def)

lemma wf_fv_add: "wf a \<Longrightarrow> wf b \<Longrightarrow> wf (fv_add a b)"
  by (cases a; cases b) (simp_all add: wf_def fv_sum_def)

lemma wf_fv_sub: "wf a \<Longrightarrow> wf b \<Longrightarrow> wf (fv_sub a b)"
  by (simp add: fv_sub_def wf_fv_add wf_fv_neg)

lemma wf_fv_mul: "wf a \<Longrightarrow> wf b \<Longrightarrow> wf (fv_mul a b)"
  by (cases a; cases b) (simp_all add: wf_def)

lemma wf_fv_div: "wf a \<Longrightarrow> wf b \<Longrightarrow> wf (fv_div a b)"
  by (cases a; cases b) (simp_all add: wf_def)

lemma dec_f32_sub: "f32_dec (f32_sub a b) = fl_round binary32 (fv_sub (f32_dec a) (f32_dec b))"
  by (simp add: f32_sub_def f32_dec_enc wf_fv_sub wf_f32_dec)

lemma dec_f32_mul: "f32_dec (f32_mul a b) = fl_round binary32 (fv_mul (f32_dec a) (f32_dec b))"
  by (simp add: f32_mul_def f32_dec_enc wf_fv_mul wf_f32_dec)

lemma dec_f32_div: "f32_dec (f32_div a b) = fl_round binary32 (fv_div (f32_dec a) (f32_dec b))"
  by (simp add: f32_div_def f32_dec_enc wf_fv_div wf_f32_dec)

lemma f32_finite_iff: "f32_finite w \<longleftrightarrow> (\<exists>s x. f32_dec w = Fin s x)"
  by (cases "f32_dec w") (simp_all add: f32_finite_def)

lemma sub_is_number:
  assumes "f32_finite a" "f32_dec b \<noteq> NaN"
  shows "f32_dec (f32_sub a b) \<noteq> NaN"
proof -
  obtain s x where a: "f32_dec a = Fin s x" using assms(1) by (auto simp add: f32_finite_iff)
  have "fv_sub (f32_dec a) (f32_dec b) \<noteq> NaN"
    using assms(2) by (cases "f32_dec b") (simp_all add: a fv_sub_def fv_sum_def)
  then show ?thesis by (simp add: dec_f32_sub fl_round_not_nan)
qed

lemma div_is_number:
  assumes "f32_dec a \<noteq> NaN"
  shows "f32_dec (f32_div a CURRENT_SENSITIVITY) \<noteq> NaN"
proof -
  have "fv_div (f32_dec a) (f32_dec CURRENT_SENSITIVITY) \<noteq> NaN"
    using assms by (cases "f32_dec a") (simp_all add: dec_sensitivity)
  then show ?thesis by (simp add: dec_f32_div fl_round_not_nan)
qed

lemma mul_is_number:
  assumes "f32_dec a \<noteq> NaN"
  shows "f32_dec (f32_mul a 0x3991A2B4) \<noteq> NaN"
proof -
  have "fv_mul (f32_dec a) (f32_dec 0x3991A2B4) \<noteq> NaN"
    using assms by (cases "f32_dec a") (simp_all add: dec_hour_fraction)
  then show ?thesis by (simp add: dec_f32_mul fl_round_not_nan)
qed

lemma ignore_noise_is_number: "f32_dec a \<noteq> NaN \<Longrightarrow> f32_dec (ignore_noise a) \<noteq> NaN"
  by (simp add: ignore_noise_def zero_literal dec_zero)

lemma finite_is_number: "f32_finite a \<Longrightarrow> f32_dec a \<noteq> NaN"
  by (auto simp add: f32_finite_iff)

subsection \<open>The clamp\<close>

lemma fv_total: "a \<noteq> NaN \<Longrightarrow> b \<noteq> NaN \<Longrightarrow> \<not> fv_lt a b \<Longrightarrow> fv_le b a"
  by (cases a; cases b) auto

lemma full_in_range: "in_range BATTERY_FULL_CAPACITY BATTERY_FULL_CAPACITY"
  by (simp add: in_range_def f32_le_def dec_zero dec_full signed_def)

lemma zero_in_range: "in_range BATTERY_FULL_CAPACITY 0"
  by (simp add: in_range_def f32_le_def dec_zero dec_full signed_def)

lemma keep_in_range_in_range:
  assumes "f32_dec x \<noteq> NaN"
  shows "in_range BATTERY_FULL_CAPACITY (keep_in_range BATTERY_FULL_CAPACITY x)"
proof (cases "f32_lt x 0")
  case True
  moreover have "\<not> f32_gt 0 BATTERY_FULL_CAPACITY"
    by (simp add: f32_gt_def dec_zero dec_full signed_def)
  ultimately show ?thesis
    by (simp add: keep_in_range_def zero_of_int zero_in_range)
next
  case False
  then have lo: "f32_le 0 x"
    using assms by (simp add: f32_lt_def f32_le_def fv_total dec_zero)
  show ?thesis
  proof (cases "f32_gt x BATTERY_FULL_CAPACITY")
    case True
    then show ?thesis using False by (simp add: keep_in_range_def zero_of_int full_in_range)
  next
    case g: False
    then have "f32_le x BATTERY_FULL_CAPACITY"
      using assms by (simp add: f32_gt_def f32_le_def fv_total dec_full)
    then show ?thesis using False g lo by (simp add: keep_in_range_def zero_of_int in_range_def)
  qed
qed

lemma in_range_finite:
  assumes "in_range BATTERY_FULL_CAPACITY x" shows "f32_finite x"
  using assms
  by (cases "f32_dec x") (simp_all add: in_range_def f32_le_def dec_zero dec_full f32_finite_def)

lemma not_weird_in_range: "\<not> weird x \<Longrightarrow> in_range BATTERY_FULL_CAPACITY x"
  by (simp add: weird_def in_range_def f32_isnan_def f32_lt_def f32_gt_def f32_le_def
      zero_of_int fv_total dec_zero dec_full)

subsection \<open>Bounds through the operations\<close>

lemma at_most_wf: "at_most c v \<Longrightarrow> wf v"
  by (cases v) (simp_all add: at_most_def wf_def)

lemma at_most_mono: "at_most c v \<Longrightarrow> c \<le> d \<Longrightarrow> at_most d v"
  by (cases v) (simp_all add: at_most_def)

lemma at_most_div:
  assumes "at_most c a" "1 \<le> q" shows "at_most c (fv_div a (Fin False q))"
proof -
  obtain s x where a: "a = Fin s x" and x: "0 \<le> x" "x \<le> c"
    using assms(1) by (cases a) (simp_all add: at_most_def)
  have "1 * x \<le> q * x" using assms(2) x(1) by (rule mult_right_mono)
  then have "x / q \<le> x" using assms(2) by (simp add: field_simps)
  then show ?thesis using x assms(2) by (simp add: a at_most_def)
qed

lemma at_most_mul:
  assumes "at_most c a" "0 \<le> q" "q \<le> d" shows "at_most (c * d) (fv_mul a (Fin False q))"
proof -
  obtain s x where a: "a = Fin s x" and x: "0 \<le> x" "x \<le> c"
    using assms(1) by (cases a) (simp_all add: at_most_def)
  have "x * q \<le> c * d" using x assms(2,3) by (intro mult_mono) simp_all
  then show ?thesis using x assms(2) by (simp add: a at_most_def)
qed

lemma nonneg_div: "nonneg a \<Longrightarrow> at_most c a \<Longrightarrow> 0 < q \<Longrightarrow> nonneg (fv_div a (Fin False q))"
  by (cases a) (simp_all add: nonneg_def at_most_def)

lemma nonneg_mul: "nonneg a \<Longrightarrow> at_most c a \<Longrightarrow> nonneg (fv_mul a (Fin False q))"
  by (cases a) (simp_all add: nonneg_def at_most_def)

lemma at_most_finite: "at_most c (f32_dec w) \<Longrightarrow> f32_finite w"
  by (cases "f32_dec w") (simp_all add: at_most_def f32_finite_def)

text \<open>Whatever 32-bit count is converted, the voltage is a finite number.\<close>

lemma counts_to_volts_finite: "f32_finite (counts_to_volts a ESP32_VOLTAGE)"
proof -
  have "\<bar>sint a\<bar> \<le> 2 ^ 31"
    using sint_ge [of a] sint_lt [of a] by simp
  then have "(of_int \<bar>sint a\<bar> :: rat) \<le> of_int (2 ^ 31)" by (simp only: of_int_le_iff)
  then have "at_most (of_int 1 * 2 powi 31) (fv_of_int (sint a))"
    by (simp add: fv_of_int_def at_most_def)
  then have "at_most (of_int 1 * 2 powi 31) (d_of_int (sint a))"
    unfolding d_of_int_def by (rule round64_at_most) simp_all
  then have "at_most (of_int 1 * 2 powi 31) (fv_div (d_of_int (sint a)) (Fin False 4095))"
    by (rule at_most_div) simp
  then have "at_most (of_int 1 * 2 powi 31) (d_div (d_of_int (sint a)) (d_lit 4095))"
    unfolding d_div_def lit_4095 by (rule round64_at_most) simp_all
  then have "at_most (of_int 1 * 2 powi 31 * 4)
      (fv_mul (d_div (d_of_int (sint a)) (d_lit 4095)) (Fin False (13841203 / 4194304)))"
    by (rule at_most_mul) simp_all
  then have "at_most (of_int 1 * 2 powi 33)
      (fv_mul (d_div (d_of_int (sint a)) (d_lit 4095)) (Fin False (13841203 / 4194304)))"
    by (rule at_most_mono) simp
  then have d: "at_most (of_int 1 * 2 powi 33)
      (d_mul (d_div (d_of_int (sint a)) (d_lit 4095)) (d_of_f32 ESP32_VOLTAGE))"
    unfolding d_mul_def reference_voltage by (rule round64_at_most) simp_all
  then have "at_most (of_int 1 * 2 powi 33) (fl_round binary32
      (d_mul (d_div (d_of_int (sint a)) (d_lit 4095)) (d_of_f32 ESP32_VOLTAGE)))"
    by (rule round32_at_most) simp_all
  then have "at_most (of_int 1 * 2 powi 33) (f32_dec (counts_to_volts a ESP32_VOLTAGE))"
    by (simp add: counts_to_volts_def f32_of_double_def f32_dec_enc at_most_wf [OF d])
  then show ?thesis by (rule at_most_finite)
qed

text \<open>The percentage of a capacity in range is in range.\<close>

lemma percent_in_range:
  assumes "in_range BATTERY_FULL_CAPACITY x"
  shows "percent_ok (percent_of BATTERY_FULL_CAPACITY x)"
proof -
  obtain s q where x: "f32_dec x = Fin s q"
    using in_range_finite [OF assms] by (auto simp add: f32_finite_iff)
  have q0: "0 \<le> q" using wf_f32_dec [of x] by (simp add: x wf_def)
  have sq: "0 \<le> signed s q" "signed s q \<le> 12650021 / 1048576"
    using assms by (simp_all add: in_range_def f32_le_def dec_zero dec_full x signed_def)
  have sz: "s \<longrightarrow> q = 0" using sq(1) q0 by (auto simp add: signed_def)
  have qF: "q \<le> 12650021 / 1048576" using sq(2) sz by (cases s) (simp_all add: signed_def)
  let ?r = "fv_div (f32_dec x) (f32_dec BATTERY_FULL_CAPACITY)"
  have r: "at_most (of_int 1 * 2 powi 0) ?r" "nonneg ?r"
    using q0 qF sz by (simp_all add: x dec_full at_most_def nonneg_def)
  have a1: "at_most (of_int 1 * 2 powi 0) (fl_round binary32 ?r)"
    using r(1) by (rule round32_at_most) simp_all
  have n1: "nonneg (fl_round binary32 ?r)"
    using r by (rule round32_nonneg) simp_all
  let ?d = "d_of_f32 (f32_div x BATTERY_FULL_CAPACITY)"
  have dd: "?d = fl_round binary64 (fl_round binary32 ?r)"
    by (simp add: d_of_f32_def dec_f32_div)
  have a2: "at_most (of_int 1 * 2 powi 0) ?d"
    unfolding dd using a1 by (rule round64_at_most) simp_all
  have n2: "nonneg ?d"
    unfolding dd using a1 n1 by (rule round64_nonneg) simp_all
  have "at_most (of_int 1 * 2 powi 0 * 100) (fv_mul ?d (Fin False 100))"
    using a2 by (rule at_most_mul) simp_all
  then have a3: "at_most (of_int 25 * 2 powi 2) (fv_mul ?d (Fin False 100))"
    by (rule at_most_mono) simp
  have n3: "nonneg (fv_mul ?d (Fin False 100))"
    using n2 a2 by (rule nonneg_mul)
  have a4: "at_most (of_int 25 * 2 powi 2) (d_mul ?d (d_lit 100))"
    unfolding d_mul_def lit_100 using a3 by (rule round64_at_most) simp_all
  have n4: "nonneg (d_mul ?d (d_lit 100))"
    unfolding d_mul_def lit_100 using a3 n3 by (rule round64_nonneg) simp_all
  have p: "f32_dec (percent_of BATTERY_FULL_CAPACITY x) = fl_round binary32 (d_mul ?d (d_lit 100))"
    by (simp add: percent_of_def f32_of_double_def f32_dec_enc at_most_wf [OF a4])
  have a5: "at_most (of_int 25 * 2 powi 2) (f32_dec (percent_of BATTERY_FULL_CAPACITY x))"
    unfolding p using a4 by (rule round32_at_most) simp_all
  have n5: "nonneg (f32_dec (percent_of BATTERY_FULL_CAPACITY x))"
    unfolding p using a4 n4 by (rule round32_nonneg) simp_all
  show ?thesis
    using a5 n5
    by (cases "f32_dec (percent_of BATTERY_FULL_CAPACITY x)")
      (auto simp add: percent_ok_def f32_le_def dec_zero dec_hundred at_most_def nonneg_def
        signed_def)
qed

subsection \<open>The invariant\<close>

lemma same_constants:
  "BATTERY_CAPACITY_Ah = BATTERY_FULL_CAPACITY" "ACS712_SENSITIVITY = CURRENT_SENSITIVITY"
  "ADC_REFERENCE_VOLTAGE = ESP32_VOLTAGE"
  by (simp_all add: BATTERY_CAPACITY_Ah_def BATTERY_FULL_CAPACITY_def ACS712_SENSITIVITY_def
      CURRENT_SENSITIVITY_def ADC_REFERENCE_VOLTAGE_def ESP32_VOLTAGE_def)

lemma counted_in_range:
  assumes "in_range BATTERY_FULL_CAPACITY juice" "f32_finite zero"
  shows "in_range BATTERY_FULL_CAPACITY
    (keep_in_range BATTERY_FULL_CAPACITY
      (f32_sub juice (f32_mul
        (f32_div (f32_sub zero (counts_to_volts a ESP32_VOLTAGE)) CURRENT_SENSITIVITY)
        0x3991A2B4)))"
  and "in_range BATTERY_FULL_CAPACITY
    (keep_in_range BATTERY_FULL_CAPACITY
      (f32_sub juice (f32_mul
        (ignore_noise
          (f32_div (f32_sub zero (counts_to_volts a ESP32_VOLTAGE)) CURRENT_SENSITIVITY))
        0x3991A2B4)))"
proof -
  have v: "f32_dec (counts_to_volts a ESP32_VOLTAGE) \<noteq> NaN"
    by (rule finite_is_number [OF counts_to_volts_finite])
  have amps: "f32_dec (f32_div (f32_sub zero (counts_to_volts a ESP32_VOLTAGE))
      CURRENT_SENSITIVITY) \<noteq> NaN"
    by (intro div_is_number sub_is_number assms(2) v)
  have j: "f32_finite juice" by (rule in_range_finite [OF assms(1)])
  show "in_range BATTERY_FULL_CAPACITY
    (keep_in_range BATTERY_FULL_CAPACITY
      (f32_sub juice (f32_mul
        (f32_div (f32_sub zero (counts_to_volts a ESP32_VOLTAGE)) CURRENT_SENSITIVITY)
        0x3991A2B4)))"
    by (intro keep_in_range_in_range sub_is_number j mul_is_number amps)
  show "in_range BATTERY_FULL_CAPACITY
    (keep_in_range BATTERY_FULL_CAPACITY
      (f32_sub juice (f32_mul
        (ignore_noise
          (f32_div (f32_sub zero (counts_to_volts a ESP32_VOLTAGE)) CURRENT_SENSITIVITY))
        0x3991A2B4)))"
    by (intro keep_in_range_in_range sub_is_number j mul_is_number ignore_noise_is_number amps)
qed

lemma tick1_juice:
  "batteryJuiceLeft (tick1 inp m) =
     keep_in_range BATTERY_FULL_CAPACITY
      (f32_sub (batteryJuiceLeft m) (f32_mul
        (ignore_noise (f32_div (f32_sub (noLoadVoltage m)
           (counts_to_volts (average_reading (currentReadings inp) SAMPLES_TO_AVERAGE)
              ESP32_VOLTAGE)) CURRENT_SENSITIVITY))
        0x3991A2B4))"
  by (simp add: tick1_def Let_def use_juice_def read_amps1_def currentSensorVoltage_def
      hour_fraction)

lemma tick2_remaining:
  "remainingCapacity_Ah (tick2 inp m) =
     keep_in_range BATTERY_FULL_CAPACITY
      (f32_sub (remainingCapacity_Ah m) (f32_mul
        (f32_div (f32_sub (zeroCurrentVoltage m)
           (counts_to_volts (average_reading (currentReadings inp) CURRENT_AVG_SAMPLES)
              ESP32_VOLTAGE)) CURRENT_SENSITIVITY)
        0x3991A2B4))"
  by (simp add: tick2_def Let_def count_coulombs_def read_current2_def sensor_voltage_def
      hour_fraction2 same_constants)

lemma steady_tick1: "steady1 m \<Longrightarrow> steady1 (tick1 inp m)"
  unfolding steady1_def
  by (simp only: tick1_juice counted_in_range(2)) (simp add: tick1_def Let_def)

lemma steady_tick2: "steady2 m \<Longrightarrow> steady2 (tick2 inp m)"
  unfolding steady2_def same_constants
  by (simp only: tick2_remaining counted_in_range(1)) (simp add: tick2_def Let_def)

lemma steady_zeroOut: "steady1 m \<Longrightarrow> steady1 (zeroOutCurrentSensor adc m)"
  by (simp add: steady1_def zeroOutCurrentSensor_def Let_def counts_to_volts_finite)

lemma steady_recalibrate: "steady2 m \<Longrightarrow> steady2 (recalibrateCurrentSensor adc m)"
  by (simp add: steady2_def recalibrateCurrentSensor_def Let_def counts_to_volts_finite
      same_constants)

lemma steady_save: "steady1 m \<Longrightarrow> steady1 (save_level inp m)"
  by (simp add: steady1_def save_level_def Let_def)

lemma steady_load: "f32_finite (noLoadVoltage m) \<Longrightarrow> steady1 (load_level m)"
  unfolding steady1_def
  by (simp add: loaded_level full_in_range not_weird_in_range) (simp add: load_level_def Let_def)

lemma steady_setup1: "f32_finite (noLoadVoltage m) \<Longrightarrow> steady1 (setup1 inp m)"
  using steady_load [of m] steady_zeroOut [of "load_level m" "calibrationReadings inp"]
  by (simp add: setup1_def Let_def steady1_def)

lemma steady_setup2: "steady2 m \<Longrightarrow> steady2 (setup2 inp m)"
  using steady_recalibrate [of "m\<lparr>oled2 := StartupMessage\<rparr>" "calibrationReadings inp"]
  by (simp add: setup2_def steady2_def)

lemma steady_after_button1: "steady1 m \<Longrightarrow> steady1 (after_button1 inp m)"
  by (simp add: after_button1_def Let_def steady_tick1 steady_save)

lemma steady_after_button2: "steady2 m \<Longrightarrow> steady2 (after_button2 inp m)"
  by (simp add: after_button2_def steady_tick2)

lemma steady_stage1: "steady1 (m\<lparr>stage := p\<rparr>) = steady1 m"
  by (simp add: steady1_def)

lemma steady_stage2: "steady2 (m\<lparr>stage2 := p\<rparr>) = steady2 m"
  by (simp add: steady2_def)

lemma steady_step1:
  assumes "steady1 m" shows "steady1 (step1 inp m)"
proof (cases "stage m")
  case PowerOn
  have "f32_finite (noLoadVoltage m)" using assms by (simp add: steady1_def)
  then have "steady1 (setup1 inp m)" by (rule steady_setup1)
  then show ?thesis by (simp add: step1_def PowerOn)
next
  case Frozen
  then show ?thesis using assms by (simp add: step1_def)
next
  case LoopTop
  then show ?thesis
    using assms by (simp add: step1_def steady_after_button1 steady_zeroOut steady_stage1)
next
  case ButtonHeld
  have "steady1 (m\<lparr>stage := LoopTop\<rparr>)" using assms by (simp add: steady_stage1)
  then have "steady1 (after_button1 inp (m\<lparr>stage := LoopTop\<rparr>))"
    by (rule steady_after_button1)
  then show ?thesis using assms by (simp add: step1_def ButtonHeld)
qed

lemma steady_step2:
  assumes "steady2 m" shows "steady2 (step2 inp m)"
proof (cases "stage2 m")
  case PowerOn
  then show ?thesis using assms by (simp add: step2_def steady_setup2)
next
  case Frozen
  then show ?thesis using assms by (simp add: step2_def)
next
  case LoopTop
  then show ?thesis
    using assms by (simp add: step2_def steady_after_button2 steady_recalibrate steady_stage2)
next
  case ButtonHeld
  have "steady2 (m\<lparr>stage2 := LoopTop\<rparr>)" using assms by (simp add: steady_stage2)
  then have "steady2 (after_button2 inp (m\<lparr>stage2 := LoopTop\<rparr>))"
    by (rule steady_after_button2)
  then show ?thesis using assms by (simp add: step2_def ButtonHeld)
qed

lemma steady_run1: "steady1 m \<Longrightarrow> steady1 (run1 inps m)"
  by (induction inps arbitrary: m) (simp_all add: steady_step1)

lemma steady_run2: "steady2 m \<Longrightarrow> steady2 (run2 inps m)"
  by (induction inps arbitrary: m) (simp_all add: steady_step2)

lemma shown_percent1: "steady1 m \<Longrightarrow> shown_percent_ok (oled (tick1 inp m))"
  using steady_tick1 [of m inp]
  by (simp add: shown_percent_ok_def steady1_def percent_in_range)
    (simp add: tick1_def Let_def percent_in_range)

lemma shown_percent2: "steady2 m \<Longrightarrow> shown_percent_ok (oled2 (tick2 inp m))"
  using steady_tick2 [of m inp]
  by (simp add: shown_percent_ok_def steady2_def same_constants percent_in_range)
    (simp add: tick2_def Let_def percent_in_range same_constants)


text \<open>
  Claim C1. From a state whose remaining capacity is between 0 and the full capacity (and
  whose zero-offset voltage is a finite number, as every calibration leaves it), after a
  tick, and after any sequence of steps of the program with any inputs (ticks,
  calibrations, saves, waits), the remaining capacity is between 0 and the full capacity
  again, and the percentage computed from it, the one a tick shows, is between 0 and 100.
  After power-on the hypothesis holds by itself, whatever the flash contains. Both
  sketches.
\<close>

theorem charge_stays_in_range:
  assumes "in_range BATTERY_FULL_CAPACITY (batteryJuiceLeft m)"
    and "f32_finite (noLoadVoltage m)"
    and "in_range BATTERY_CAPACITY_Ah (remainingCapacity_Ah m2)"
    and "f32_finite (zeroCurrentVoltage m2)"
  shows "in_range BATTERY_FULL_CAPACITY (batteryJuiceLeft (tick1 inp m))
    \<and> shown_percent_ok (oled (tick1 inp m))
    \<and> in_range BATTERY_FULL_CAPACITY (batteryJuiceLeft (run1 inps m))
    \<and> percent_ok (percent_of BATTERY_FULL_CAPACITY (batteryJuiceLeft (run1 inps m)))
    \<and> in_range BATTERY_CAPACITY_Ah (remainingCapacity_Ah (tick2 inp m2))
    \<and> shown_percent_ok (oled2 (tick2 inp m2))
    \<and> in_range BATTERY_CAPACITY_Ah (remainingCapacity_Ah (run2 inps m2))
    \<and> percent_ok (percent_of BATTERY_CAPACITY_Ah (remainingCapacity_Ah (run2 inps m2)))
    \<and> in_range BATTERY_FULL_CAPACITY (batteryJuiceLeft (run1 (inp # inps) (power_on fl)))
    \<and> in_range BATTERY_CAPACITY_Ah (remainingCapacity_Ah (run2 inps power_on2))"
proof -
  have s1: "steady1 m" using assms(1,2) by (simp add: steady1_def)
  have s2: "steady2 m2" using assms(3,4) by (simp add: steady2_def)
  have z: "f32_finite 0" by (simp add: f32_finite_def dec_zero)
  have "steady1 (setup1 inp (power_on fl))"
    using z by (intro steady_setup1) (simp add: power_on_def)
  then have p1: "steady1 (run1 (inp # inps) (power_on fl))"
    using steady_run1 [of "setup1 inp (power_on fl)" inps] by (simp add: step1_def power_on_def)
  have "steady2 power_on2"
    using z full_in_range by (simp add: steady2_def power_on2_def same_constants)
  then have p2: "steady2 (run2 inps power_on2)" by (rule steady_run2)
  show ?thesis
    using steady_tick1 [OF s1, of inp] shown_percent1 [OF s1, of inp] steady_run1 [OF s1, of inps]
      steady_tick2 [OF s2, of inp] shown_percent2 [OF s2, of inp] steady_run2 [OF s2, of inps]
      p1 p2
    by (simp add: steady1_def steady2_def percent_in_range same_constants)
qed

text \<open>With 5 Ah left in the first sketch, the second sketch as it starts, and two ticks.\<close>

theorem charge_stays_in_range_witness:
  "in_range BATTERY_FULL_CAPACITY
     (batteryJuiceLeft (tick1 quiet ((power_on [])\<lparr>batteryJuiceLeft := 0x40A00000\<rparr>)))
   \<and> shown_percent_ok (oled (tick1 quiet ((power_on [])\<lparr>batteryJuiceLeft := 0x40A00000\<rparr>)))
   \<and> in_range BATTERY_FULL_CAPACITY
     (batteryJuiceLeft (run1 [quiet, quiet\<lparr>millisCheck := 1000\<rparr>, quiet\<lparr>millisCheck := 2000\<rparr>]
        ((power_on [])\<lparr>batteryJuiceLeft := 0x40A00000\<rparr>)))
   \<and> in_range BATTERY_CAPACITY_Ah (remainingCapacity_Ah (tick2 quiet power_on2))
   \<and> shown_percent_ok (oled2 (tick2 quiet power_on2))
   \<and> in_range BATTERY_CAPACITY_Ah
     (remainingCapacity_Ah
        (run2 [quiet, quiet\<lparr>millisCheck := 1000\<rparr>, quiet\<lparr>millisCheck := 2000\<rparr>] power_on2))"
proof -
  let ?m = "(power_on [])\<lparr>batteryJuiceLeft := 0x40A00000\<rparr>"
  have five: "in_range BATTERY_FULL_CAPACITY 0x40A00000" by code_simp
  have 1: "in_range BATTERY_FULL_CAPACITY (batteryJuiceLeft ?m)" using five by simp
  have 2: "f32_finite (noLoadVoltage ?m)"
    by (simp add: power_on_def f32_finite_def dec_zero)
  have 3: "in_range BATTERY_CAPACITY_Ah (remainingCapacity_Ah power_on2)"
    using full_in_range by (simp add: power_on2_def same_constants)
  have 4: "f32_finite (zeroCurrentVoltage power_on2)"
    by (simp add: power_on2_def f32_finite_def dec_zero)
  from charge_stays_in_range [OF 1 2 3 4, of quiet
      "[quiet, quiet\<lparr>millisCheck := 1000\<rparr>, quiet\<lparr>millisCheck := 2000\<rparr>]"]
  show ?thesis by simp
qed

section \<open>The persistence round trip\<close>

lemma length_EEPROM_put: "length (EEPROM_put data addr x) = length data"
  by (simp add: EEPROM_put_def length_bytes_of_float)

lemma eeprom_load: "length (eeprom (load_level m)) = 4"
  by (simp add: load_level_def Let_def length_EEPROM_begin)

lemma eeprom_setup1: "length (eeprom (setup1 inp m)) = 4"
  using eeprom_load [of m] by (simp add: setup1_def Let_def zeroOutCurrentSensor_def)

lemma eeprom_after_button1:
  "length (eeprom (after_button1 inp m)) = length (eeprom m)"
  by (simp add: after_button1_def Let_def tick1_def save_level_def length_EEPROM_put)

lemma eeprom_step1: "length (eeprom m) = 4 \<Longrightarrow> length (eeprom (step1 inp m)) = 4"
  by (cases "stage m")
    (simp_all add: step1_def eeprom_setup1 eeprom_after_button1 zeroOutCurrentSensor_def Let_def)

lemma eeprom_run1: "length (eeprom m) = 4 \<Longrightarrow> length (eeprom (run1 inps m)) = 4"
  by (induction inps arbitrary: m) (simp_all add: eeprom_step1)

lemma eeprom_after_power_on: "length (eeprom (run1 (inp # inps) (power_on fl))) = 4"
  by (simp add: eeprom_run1 step1_def power_on_def eeprom_setup1)

lemma steady_after_power_on: "steady1 (run1 (inp # inps) (power_on fl))"
proof -
  have "f32_finite (noLoadVoltage (power_on fl))"
    by (simp add: power_on_def f32_finite_def dec_zero)
  then have "steady1 (setup1 inp (power_on fl))" by (rule steady_setup1)
  then have "steady1 (run1 inps (setup1 inp (power_on fl)))" by (rule steady_run1)
  then show ?thesis by (simp add: step1_def power_on_def)
qed

text \<open>
  Claim C6. A remaining capacity \<open>x\<close> with \<open>0 \<le> x \<le> BATTERY_FULL_CAPACITY\<close> that the
  sketch saves (\<^verbatim>\<open>EEPROM.put\<close> and \<^verbatim>\<open>EEPROM.commit\<close>) is what \<^verbatim>\<open>EEPROM.get\<close> reads back,
  and it is the remaining capacity after the next power-on, unchanged. In every state
  that the program reaches after power-on the remaining capacity is such a value and the
  EEPROM buffer has its four bytes, so there a save followed by a restart always gives
  the remaining capacity back.
\<close>

theorem persistence_round_trip:
  assumes "f32_le 0 (batteryJuiceLeft m)"
    and "f32_le (batteryJuiceLeft m) BATTERY_FULL_CAPACITY"
    and "length (eeprom m) = 4"
  shows "EEPROM_get (EEPROM_put (eeprom m) 0 (batteryJuiceLeft m)) 0 t = batteryJuiceLeft m
    \<and> batteryJuiceLeft (setup1 inp' (power_on (flash (save_level inp m)))) = batteryJuiceLeft m
    \<and> batteryJuiceLeft (setup1 inp'
          (power_on (flash (save_level inp (run1 (i # inps) (power_on fl))))))
        = batteryJuiceLeft (run1 (i # inps) (power_on fl))"
proof -
  have *: "batteryJuiceLeft (setup1 inp' (power_on (flash (save_level inp k)))) = batteryJuiceLeft k
      \<and> EEPROM_get (EEPROM_put (eeprom k) 0 (batteryJuiceLeft k)) 0 t = batteryJuiceLeft k"
    if "in_range BATTERY_FULL_CAPACITY (batteryJuiceLeft k)" "length (eeprom k) = 4" for k
  proof -
    let ?x = "batteryJuiceLeft k"
    have "\<not> weird ?x"
      using fv_le_not_lt [of "f32_dec 0" "f32_dec ?x"]
        fv_le_not_lt [of "f32_dec ?x" "f32_dec BATTERY_FULL_CAPACITY"]
        fv_le_not_nan [of "f32_dec ?x" "f32_dec BATTERY_FULL_CAPACITY"] that(1)
      by (simp add: weird_def in_range_def f32_le_def f32_lt_def f32_gt_def f32_isnan_def
          zero_of_int)
    moreover have "flash (save_level inp k) = bytes_of_float ?x"
      using that(2) by (simp add: save_level_def Let_def EEPROM_put_whole)
    ultimately show ?thesis
      using that(2)
      by (simp add: setup1_level loaded_level power_on_def EEPROM_begin_same
          length_bytes_of_float float_of_bytes_of_float EEPROM_put_whole EEPROM_get_whole)
  qed
  have "in_range BATTERY_FULL_CAPACITY (batteryJuiceLeft m)"
    using assms(1,2) by (simp add: in_range_def)
  from * [OF this assms(3)] * [of "run1 (i # inps) (power_on fl)"]
    steady_after_power_on [of i inps fl] eeprom_after_power_on [of i inps fl]
  show ?thesis by (simp add: steady1_def)
qed

text \<open>With 5 Ah left.\<close>

theorem persistence_round_trip_witness:
  "EEPROM_get (EEPROM_put [0, 0, 0, 0] 0 0x40A00000) 0 0 = 0x40A00000
   \<and> batteryJuiceLeft (setup1 quiet (power_on (flash (save_level quiet
        ((power_on [])\<lparr>batteryJuiceLeft := 0x40A00000, eeprom := [0, 0, 0, 0]\<rparr>)))))
      = 0x40A00000"
proof -
  let ?m = "(power_on [])\<lparr>batteryJuiceLeft := 0x40A00000, eeprom := [0, 0, 0, 0]\<rparr>"
  have 1: "f32_le 0 0x40A00000" by code_simp
  have 2: "f32_le 0x40A00000 BATTERY_FULL_CAPACITY" by code_simp
  have "f32_le 0 (batteryJuiceLeft ?m)"
    and "f32_le (batteryJuiceLeft ?m) BATTERY_FULL_CAPACITY" and "length (eeprom ?m) = 4"
    using 1 2 by simp_all
  from persistence_round_trip [OF this, of 0 quiet quiet] show ?thesis by simp
qed


section \<open>Operations that do not round\<close>

text \<open>Rounding to nearest never goes below a value of the format that is below the
  operand, so a value that the format holds is its own rounding. A \<^verbatim>\<open>float\<close> widened to
  a \<^verbatim>\<open>double\<close> and a \<^verbatim>\<open>float\<close> multiplied by 100 in \<^verbatim>\<open>double\<close> are such values: the
  percentage that the sketches compute through \<^verbatim>\<open>double\<close> is the one of the \<^verbatim>\<open>float\<close>
  arithmetic.\<close>

lemma round_above:
  fixes fmt :: format and x :: rat and n k :: int
  assumes "0 < x" "of_int n * 2 powi k \<le> x" "n < 2 * 2 ^ frac_bits fmt" "emin fmt \<le> k"
  shows "of_int n * 2 powi k
          \<le> (of_int (rhe (x / 2 powi (qexp fmt x))) :: rat) * 2 powi (qexp fmt x)"
proof (cases "qexp fmt x \<le> k")
  case True
  let ?e = "qexp fmt x"
  have "(2::rat) powi k = 2 powi (k - ?e) * 2 powi ?e"
    by (simp add: powi_add [symmetric])
  also have "(2::rat) powi (k - ?e) = of_int (2 ^ nat (k - ?e))"
    using True by (simp add: power_int_def)
  finally have c: "of_int n * (2::rat) powi k = of_int (n * 2 ^ nat (k - ?e)) * 2 powi ?e"
    by simp
  have "of_int (n * 2 ^ nat (k - ?e)) \<le> x / 2 powi ?e"
    using assms(2) powi_pos [of ?e] unfolding c by (simp add: field_simps)
  then have "n * 2 ^ nat (k - ?e) \<le> rhe (x / 2 powi ?e)" by (rule rhe_ge)
  then have "(of_int (n * 2 ^ nat (k - ?e)) :: rat) \<le> of_int (rhe (x / 2 powi ?e))"
    by (simp only: of_int_le_iff)
  then show ?thesis
    unfolding c using powi_pos [of ?e] by (simp only: mult_le_cancel_right_pos)
next
  case False
  let ?e = "qexp fmt x"
  let ?P = "(2::int) ^ frac_bits fmt"
  have ke: "k + 1 \<le> ?e" using False by simp
  then have "emin fmt < ?e" using assms(4) by simp
  then have "?P \<le> rhe (x / 2 powi ?e)" by (rule significand_bounds(3) [OF assms(1)])
  then have "(of_int ?P :: rat) \<le> of_int (rhe (x / 2 powi ?e))" by (simp only: of_int_le_iff)
  then have m: "of_int ?P * (2::rat) powi ?e \<le> of_int (rhe (x / 2 powi ?e)) * 2 powi ?e"
    using powi_pos [of ?e] by (simp only: mult_le_cancel_right_pos)
  have "n \<le> 2 * ?P" using assms(3) by simp
  then have "(of_int n :: rat) \<le> of_int (2 * ?P)" by (simp only: of_int_le_iff)
  then have "of_int n * (2::rat) powi k \<le> of_int (2 * ?P) * 2 powi k"
    using powi_pos [of k] by (simp only: mult_le_cancel_right_pos)
  also have "\<dots> = of_int ?P * 2 powi (k + 1)"
    by (simp add: powi_add)
  also have "\<dots> \<le> of_int ?P * 2 powi ?e"
    using ke by (intro mult_left_mono power_int_increasing) simp_all
  finally show ?thesis using m by (rule order_trans)
qed

lemma fl_round_exact:
  fixes fmt :: format and n k :: int
  assumes "x = of_int n * 2 powi k" "0 \<le> n" "n < 2 * 2 ^ frac_bits fmt"
    and "emin fmt \<le> k" "k \<le> emin fmt + 2 ^ exp_bits fmt - 4"
  shows "fl_round fmt (Fin s x) = Fin s x"
proof -
  have x0: "0 \<le> x" using assms(1,2) powi_pos [of k] by simp
  have xc: "x \<le> of_int n * 2 powi k" using assms(1) by simp
  let ?P = "(2::int) ^ frac_bits fmt"
  have P: "0 < ?P" by simp
  have inf: "0 < inf_mag fmt"
  proof -
    have "(4::int) \<le> 2 ^ exp_bits fmt" using assms(4,5) by linarith
    then show ?thesis by (simp add: inf_mag_def)
  qed
  show ?thesis
  proof (cases "x = 0")
    case True
    then show ?thesis using inf
      by (simp add: fl_round_def round_mag_def of_mag_def mag_val_def)
  next
    case False
    then have xp: "0 < x" using x0 by simp
    let ?e = "qexp fmt x"
    let ?m = "rhe (x / 2 powi ?e)"
    have m: "0 \<le> ?m" "?m \<le> 2 * ?P" "emin fmt < ?e \<Longrightarrow> ?P \<le> ?m"
      using significand_bounds [OF xp, of fmt] by simp_all
    have e: "emin fmt \<le> ?e" by (rule qexp_ge)
    have ek: "?e \<le> k" and le: "(of_int ?m :: rat) * 2 powi ?e \<le> of_int n * 2 powi k"
      using round_below [OF xp xc assms(3,4)] by simp_all
    have ge: "of_int n * 2 powi k \<le> (of_int ?m :: rat) * 2 powi ?e"
      using assms(1) by (intro round_above [OF xp _ assms(3,4)]) simp
    let ?bits = "(?e - emin fmt) * ?P + ?m"
    have "?bits \<le> (?e - emin fmt) * ?P + 2 * ?P" using m(2) by simp
    also have "\<dots> = (?e - emin fmt + 2) * ?P" by (simp add: algebra_simps)
    also have "\<dots> \<le> (2 ^ exp_bits fmt - 2) * ?P"
      using ek assms(5) P by (intro mult_right_mono) simp_all
    also have "\<dots> < (2 ^ exp_bits fmt - 1) * ?P"
      using P by (simp add: algebra_simps)
    finally have fits: "?bits < inf_mag fmt" by (simp add: inf_mag_def)
    have val: "mag_val fmt ?bits = (of_int ?m :: rat) * 2 powi ?e"
      using m e by (intro mag_val_encoded) simp_all
    have "round_mag fmt x = ?bits"
      using False fits by (simp add: round_mag_def round_at_def)
    then have "fl_round fmt (Fin s x) = Fin s (of_int ?m * 2 powi ?e)"
      using fits val by (simp add: fl_round_def of_mag_def)
    moreover have "(of_int ?m :: rat) * 2 powi ?e = x"
      using le ge assms(1) by simp
    ultimately show ?thesis by simp
  qed
qed

text \<open>Every finite \<^verbatim>\<open>float\<close> is an integer below \<open>2^24\<close> times a power of two.\<close>

lemma f32_dec_representable:
  assumes "f32_dec w = Fin s x"
  shows "\<exists>n k. x = of_int n * 2 powi k \<and> 0 \<le> n \<and> n < 16777216 \<and> - 149 \<le> k \<and> k \<le> 104"
proof -
  define m where "m = uint (take_bit 31 w)"
  have m0: "0 \<le> m" by (simp add: m_def)
  have mi: "m < 2139095040" and x: "x = mag_val binary32 m"
    using assms by (simp_all add: f32_dec_def of_mag_def m_def [symmetric] inf_mag32 split: if_splits)
  define E where "E = m div 8388608"
  define f where "f = m mod 8388608"
  have f: "0 \<le> f" "f < 8388608" by (simp_all add: f_def)
  have E: "0 \<le> E" "E \<le> 254" using m0 mi by (simp_all add: E_def)
  show ?thesis
  proof (cases "m = 0")
    case True
    have "x = of_int 0 * 2 powi (- 149)" by (simp add: x True mag_val_def)
    then show ?thesis by (intro exI [of _ 0] exI [of _ "- 149"]) simp
  next
    case False
    show ?thesis
    proof (cases "E = 0")
      case True
      have "x = of_int f * 2 powi (- 149)"
        using False True
        by (simp add: x mag_val_def mag_of_def binary32_def emin_def E_def f_def)
      then show ?thesis using f by (intro exI [of _ f] exI [of _ "- 149"]) simp
    next
      case nz: False
      have "x = of_int (8388608 + f) * 2 powi (E - 150)"
        using False nz
        by (simp add: x mag_val_def mag_of_def binary32_def emin_def E_def f_def)
      moreover have "1 \<le> E" using nz E(1) by simp
      ultimately show ?thesis using f E
        by (intro exI [of _ "8388608 + f"] exI [of _ "E - 150"]) simp
    qed
  qed
qed

lemma widen_exact: "fl_round binary64 (f32_dec w) = f32_dec w"
proof (cases "f32_dec w")
  case (Fin s x)
  obtain n k where "x = of_int n * 2 powi k" "0 \<le> n" "n < 16777216" "- 149 \<le> k" "k \<le> 104"
    using f32_dec_representable [OF Fin] by blast
  then have "fl_round binary64 (Fin s x) = Fin s x"
    by (intro fl_round_exact [where n = n and k = k]) (simp_all add: binary64_def emin_def)
  then show ?thesis by (simp add: Fin)
qed (simp_all add: fl_round_def)

lemma times_100_exact:
  assumes "f32_dec w = Fin s x"
  shows "fl_round binary64 (Fin t (x * 100)) = Fin t (x * 100)"
proof -
  obtain n k where nk: "x = of_int n * 2 powi k" "0 \<le> n" "n < 16777216" "- 149 \<le> k" "k \<le> 104"
    using f32_dec_representable [OF assms] by blast
  have "x * 100 = of_int (n * 25) * 2 powi (k + 2)"
    by (simp add: nk(1) powi_add)
  then show ?thesis
    using nk by (intro fl_round_exact [where n = "n * 25" and k = "k + 2"])
      (simp_all add: binary64_def emin_def)
qed

lemma hundred_literal: "f32_lit 100 = 0x42C80000"
  by code_simp

lemma percent_of_spec_percent: "percent_of full r = spec_percent full r"
proof -
  define q where "q = f32_dec (f32_div r full)"
  have "fl_round binary64 (fv_mul q (Fin False 100)) = fv_mul q (Fin False 100)"
  proof (cases q)
    case (Fin s x)
    then have "f32_dec (f32_div r full) = Fin s x" by (simp add: q_def)
    from times_100_exact [OF this] show ?thesis by (simp add: Fin)
  qed (simp_all add: fl_round_def)
  then show ?thesis
    by (simp add: percent_of_def spec_percent_def f32_of_double_def d_mul_def d_of_f32_def
        widen_exact lit_100 hundred_literal f32_mul_def dec_hundred q_def)
qed


section \<open>The tick\<close>

lemma zero_not_above_full: "\<not> f32_gt 0 BATTERY_FULL_CAPACITY"
  by code_simp

lemma same_capacity: "BATTERY_CAPACITY_Ah = BATTERY_FULL_CAPACITY"
  by (simp add: BATTERY_CAPACITY_Ah_def BATTERY_FULL_CAPACITY_def)

lemma keep_in_range_spec_clamp:
  "keep_in_range BATTERY_FULL_CAPACITY x = spec_clamp BATTERY_FULL_CAPACITY x"
  using zero_not_above_full by (simp add: keep_in_range_def spec_clamp_def zero_of_int Let_def)

text \<open>1000 ms in hours is the constant that the sketches multiply by; 10000 ms is not.\<close>

lemma nominal_hours: "spec_hours 1000 = 0x3991A2B4"
  by code_simp

lemma late_hours: "spec_hours 10000 = 0x3B360B61"
  by code_simp

lemma save_level_oled: "oled (save_level inp m) = oled m"
  by (simp add: save_level_def Let_def)

lemma quiet_reads:
  "displayBegins quiet" "\<not> buttonLow quiet" "calibrationReadings quiet = (\<lambda>i. 2048)"
  "millisCheck quiet = 0" "millisChecked quiet = 0" "voltageReading quiet = 2048"
  "tempC quiet = 0" "millisSave quiet = 0" "millisSaved quiet = 0"
  by (simp_all add: quiet_def)

text \<open>The states after \<^verbatim>\<open>setup\<close> with erased flash and a calibration at mid-scale.\<close>

lemma after_setup1:
  "noLoadVoltage (step1 quiet (power_on [])) = 0x3FD34067"
  "batteryJuiceLeft (step1 quiet (power_on [])) = BATTERY_FULL_CAPACITY"
  "timeOfLastCheck (step1 quiet (power_on [])) = 0"
  "timeOfLastSave (step1 quiet (power_on [])) = 0"
  "stage (step1 quiet (power_on [])) = LoopTop"
proof -
  have avg: "average_reading (\<lambda>i. 2048) 500 = ucast (2048 :: 16 word)"
    by (intro average_constant) simp_all
  have v: "counts_to_volts 2048 ESP32_VOLTAGE = 0x3FD34067" by code_simp
  show "noLoadVoltage (step1 quiet (power_on [])) = 0x3FD34067"
    "batteryJuiceLeft (step1 quiet (power_on [])) = BATTERY_FULL_CAPACITY"
    "timeOfLastCheck (step1 quiet (power_on [])) = 0"
    "timeOfLastSave (step1 quiet (power_on [])) = 0"
    "stage (step1 quiet (power_on [])) = LoopTop"
    using erased_flash_weird
    by (simp_all add: step1_def power_on_def setup1_def zeroOutCurrentSensor_def Let_def
        quiet_reads avg v load_level_def EEPROM_get_def length_EEPROM_begin)
qed

lemma after_setup2:
  "zeroCurrentVoltage (step2 quiet power_on2) = 0x3FD34067"
  "remainingCapacity_Ah (step2 quiet power_on2) = BATTERY_CAPACITY_Ah"
  "lastTime (step2 quiet power_on2) = 0"
  "stage2 (step2 quiet power_on2) = LoopTop"
proof -
  have avg: "average_reading (\<lambda>i. 2048) 1000 = ucast (2048 :: 16 word)"
    by (intro average_constant) simp_all
  have v: "counts_to_volts 2048 ADC_REFERENCE_VOLTAGE = 0x3FD34067" by code_simp
  show "zeroCurrentVoltage (step2 quiet power_on2) = 0x3FD34067"
    "remainingCapacity_Ah (step2 quiet power_on2) = BATTERY_CAPACITY_Ah"
    "lastTime (step2 quiet power_on2) = 0"
    "stage2 (step2 quiet power_on2) = LoopTop"
    by (simp_all add: step2_def power_on2_def setup2_def recalibrateCurrentSensor_def Let_def
        quiet_reads avg v)
qed

text \<open>The sensor voltage when every reading of a tick is the same count.\<close>

lemma constant_sensor_voltage:
  "currentSensorVoltage (\<lambda>i. C) = counts_to_volts (ucast C) ESP32_VOLTAGE"
  "sensor_voltage (\<lambda>i. C) = counts_to_volts (ucast C) ADC_REFERENCE_VOLTAGE"
proof -
  have "average_reading (\<lambda>i. C) 200 = ucast C" by (intro average_constant) simp_all
  then show "currentSensorVoltage (\<lambda>i. C) = counts_to_volts (ucast C) ESP32_VOLTAGE"
    by (simp add: currentSensorVoltage_def SAMPLES_TO_AVERAGE_def)
  have "average_reading (\<lambda>i. C) 400 = ucast C" by (intro average_constant) simp_all
  then show "sensor_voltage (\<lambda>i. C) = counts_to_volts (ucast C) ADC_REFERENCE_VOLTAGE"
    by (simp add: sensor_voltage_def CURRENT_AVG_SAMPLES_def)
qed

text \<open>
  Claim C2, as amended. On a pass of \<^verbatim>\<open>loop\<close> that finds exactly 1000 ms elapsed since
  the previous tick, both sketches compute the current as
  \<^verbatim>\<open>(zero offset - sensor voltage) / sensitivity\<close> (positive when discharging); the first
  sketch then replaces a current whose absolute value is below
  \<^verbatim>\<open>CURRENT_NOISE_THRESHOLD\<close> by zero, the second, whose filter is commented out, keeps
  it; they subtract the current times the elapsed time in hours from the remaining
  capacity, clamp the result to the range from 0 to the full capacity, and show the
  remaining capacity divided by the full capacity, times 100. The sensor voltage is the
  one of the truncated average of the readings. The right-hand sides are the
  specification's steps 1 to 6 with the elapsed time that \<^verbatim>\<open>millis()\<close> measured; what a
  pass that finds more than 1000 ms does is not part of this statement.
\<close>

theorem tick_computation:
  assumes "millisCheck inp - timeOfLastCheck m = 1000"
    and "millisCheck inp - lastTime m2 = 1000"
  shows
  "oled (after_button1 inp m) =
     (case spec_tick ignore_noise BATTERY_FULL_CAPACITY CURRENT_SENSITIVITY
             (millisCheck inp - timeOfLastCheck m)
             (noLoadVoltage m) (currentSensorVoltage (currentReadings inp)) (batteryJuiceLeft m)
      of (current, remaining, percent) \<Rightarrow>
        Readings \<lparr>shownVoltage = read_voltage1 (voltageReading inp), shownAmps = current,
          shownSoc = percent, shownTemp = Some (tempC inp)\<rparr>)
   \<and> batteryJuiceLeft (after_button1 inp m) =
     (case spec_tick ignore_noise BATTERY_FULL_CAPACITY CURRENT_SENSITIVITY
             (millisCheck inp - timeOfLastCheck m)
             (noLoadVoltage m) (currentSensorVoltage (currentReadings inp)) (batteryJuiceLeft m)
      of (current, remaining, percent) \<Rightarrow> remaining)
   \<and> oled2 (after_button2 inp m2) =
     (case spec_tick (\<lambda>current. current) BATTERY_CAPACITY_Ah ACS712_SENSITIVITY
             (millisCheck inp - lastTime m2)
             (zeroCurrentVoltage m2) (sensor_voltage (currentReadings inp))
             (remainingCapacity_Ah m2)
      of (current, remaining, percent) \<Rightarrow>
        Readings \<lparr>shownVoltage = read_voltage2 (voltageReading inp), shownAmps = current,
          shownSoc = percent, shownTemp = None\<rparr>)
   \<and> remainingCapacity_Ah (after_button2 inp m2) =
     (case spec_tick (\<lambda>current. current) BATTERY_CAPACITY_Ah ACS712_SENSITIVITY
             (millisCheck inp - lastTime m2)
             (zeroCurrentVoltage m2) (sensor_voltage (currentReadings inp))
             (remainingCapacity_Ah m2)
      of (current, remaining, percent) \<Rightarrow> remaining)"
  using assms
  by (simp add: after_button1_def after_button2_def save_level_juice save_level_oled
      tick1_def tick2_def spec_tick_def Let_def use_juice_def count_coulombs_def
      read_amps1_def read_current2_def keep_in_range_spec_clamp same_capacity
      nominal_hours hour_fraction hour_fraction2 percent_of_spec_percent)

text \<open>
  One second after \<^verbatim>\<open>setup\<close> with erased flash and a calibration at mid-scale (2048), a
  tick whose readings are all 1900 sees 0.6447 A of discharge (\<^verbatim>\<open>0x3F250A4C\<close>): both
  sketches go from 12.064 Ah down to 12.06382 Ah (\<^verbatim>\<open>0x41410569\<close>) and show 99.9985 per
  cent (\<^verbatim>\<open>0x42C7FF3D\<close>) at 8.9501 V (\<^verbatim>\<open>0x410F33C0\<close>).
\<close>

theorem tick_computation_witness:
  "oled (after_button1 (quiet\<lparr>currentReadings := (\<lambda>i. 1900), millisCheck := 1000\<rparr>)
          (step1 quiet (power_on [])))
     = Readings \<lparr>shownVoltage = 0x410F33C0, shownAmps = 0x3F250A4C, shownSoc = 0x42C7FF3D,
         shownTemp = Some 0\<rparr>
   \<and> batteryJuiceLeft (after_button1 (quiet\<lparr>currentReadings := (\<lambda>i. 1900), millisCheck := 1000\<rparr>)
          (step1 quiet (power_on [])))
     = 0x41410569
   \<and> oled2 (after_button2 (quiet\<lparr>currentReadings := (\<lambda>i. 1900), millisCheck := 1000\<rparr>)
          (step2 quiet power_on2))
     = Readings \<lparr>shownVoltage = 0x410F33C0, shownAmps = 0x3F250A4C, shownSoc = 0x42C7FF3D,
         shownTemp = None\<rparr>
   \<and> remainingCapacity_Ah
        (after_button2 (quiet\<lparr>currentReadings := (\<lambda>i. 1900), millisCheck := 1000\<rparr>)
          (step2 quiet power_on2))
     = 0x41410569"
proof -
  let ?inp = "quiet\<lparr>currentReadings := (\<lambda>i. 1900), millisCheck := 1000\<rparr>"
  have 1: "millisCheck ?inp - timeOfLastCheck (step1 quiet (power_on [])) = 1000"
    by (simp add: after_setup1)
  have 2: "millisCheck ?inp - lastTime (step2 quiet power_on2) = 1000"
    by (simp add: after_setup2)
  have volts: "read_voltage1 2048 = 0x410F33C0" "read_voltage2 2048 = 0x410F33C0"
    by code_simp+
  have v: "counts_to_volts 1900 ESP32_VOLTAGE = 0x3FC3FC40"
    "counts_to_volts 1900 ADC_REFERENCE_VOLTAGE = 0x3FC3FC40"
    by code_simp+
  have s1: "spec_tick ignore_noise BATTERY_FULL_CAPACITY CURRENT_SENSITIVITY 1000
      0x3FD34067 0x3FC3FC40 BATTERY_FULL_CAPACITY = (0x3F250A4C, 0x41410569, 0x42C7FF3D)"
    by code_simp
  have s2: "spec_tick (\<lambda>current. current) BATTERY_CAPACITY_Ah ACS712_SENSITIVITY 1000
      0x3FD34067 0x3FC3FC40 BATTERY_CAPACITY_Ah = (0x3F250A4C, 0x41410569, 0x42C7FF3D)"
    by code_simp
  from tick_computation [OF 1 2] show ?thesis
    by (simp add: after_setup1 after_setup2 constant_sensor_voltage v s1 s2 volts quiet_reads)
qed

text \<open>
  The claim as it was stated leaves the dead zone out, and takes the time step to be the
  time since the previous tick. After \<^verbatim>\<open>setup\<close> with erased flash and a calibration at
  mid-scale (2048):

  \<^item> one second later, a tick of the first sketch whose readings are all 2038 sees
    0.0436 A of discharge, counts nothing and stays at 12.064 Ah (\<^verbatim>\<open>0x41410625\<close>), where
    the stated formula goes down to \<^verbatim>\<open>0x41410618\<close>;

  \<^item> ten seconds later, a tick of the second sketch whose readings are all 1900 sees
    0.6447 A of discharge and subtracts one second of it, down to \<^verbatim>\<open>0x41410569\<close>, where
    the stated formula with the ten seconds that have passed goes down to
    \<^verbatim>\<open>0x4140FECF\<close>.
\<close>

theorem tick_computation_counterexample:
  "batteryJuiceLeft
     (step1 (quiet\<lparr>currentReadings := (\<lambda>i. 2038), millisCheck := 1000\<rparr>)
        (step1 quiet (power_on [])))
   \<noteq> (case spec_tick (\<lambda>current. current) BATTERY_FULL_CAPACITY CURRENT_SENSITIVITY
             (1000 - timeOfLastCheck (step1 quiet (power_on [])))
             (noLoadVoltage (step1 quiet (power_on [])))
             (currentSensorVoltage (\<lambda>i. 2038)) (batteryJuiceLeft (step1 quiet (power_on [])))
       of (current, remaining, percent) \<Rightarrow> remaining)
   \<and> remainingCapacity_Ah
     (step2 (quiet\<lparr>currentReadings := (\<lambda>i. 1900), millisCheck := 10000\<rparr>)
        (step2 quiet power_on2))
   \<noteq> (case spec_tick (\<lambda>current. current) BATTERY_CAPACITY_Ah ACS712_SENSITIVITY
             (10000 - lastTime (step2 quiet power_on2))
             (zeroCurrentVoltage (step2 quiet power_on2))
             (sensor_voltage (\<lambda>i. 1900)) (remainingCapacity_Ah (step2 quiet power_on2))
       of (current, remaining, percent) \<Rightarrow> remaining)"
proof -
  let ?inp1 = "quiet\<lparr>currentReadings := (\<lambda>i. 2038), millisCheck := 1000\<rparr>"
  let ?inp2 = "quiet\<lparr>currentReadings := (\<lambda>i. 1900), millisCheck := 10000\<rparr>"
  have v1: "counts_to_volts 2038 ESP32_VOLTAGE = 0x3FD23857" by code_simp
  have v2: "counts_to_volts 1900 ADC_REFERENCE_VOLTAGE = 0x3FC3FC40" by code_simp
  have amps1: "f32_div (f32_sub 0x3FD34067 0x3FD23857) CURRENT_SENSITIVITY = 0x3D326BAD"
    by code_simp
  have amps2: "f32_div (f32_sub 0x3FD34067 0x3FC3FC40) ACS712_SENSITIVITY = 0x3F250A4C"
    by code_simp
  have quietened: "ignore_noise 0x3D326BAD = 0" by code_simp
  have kept: "use_juice 0 BATTERY_FULL_CAPACITY = 0x41410625" by code_simp
  have counted: "count_coulombs 0x3F250A4C BATTERY_CAPACITY_Ah = 0x41410569" by code_simp
  have claimed1: "spec_clamp BATTERY_FULL_CAPACITY
      (f32_sub BATTERY_FULL_CAPACITY (f32_mul 0x3D326BAD 0x3991A2B4)) = 0x41410618"
    by code_simp
  have claimed2: "spec_clamp BATTERY_CAPACITY_Ah
      (f32_sub BATTERY_CAPACITY_Ah (f32_mul 0x3F250A4C 0x3B360B61)) = 0x4140FECF"
    by code_simp
  have code1: "batteryJuiceLeft (step1 ?inp1 (step1 quiet (power_on []))) = 0x41410625"
    by (simp add: step1_def [of ?inp1] after_setup1 after_button1_def Let_def save_level_juice
        tick1_def read_amps1_def constant_sensor_voltage v1 amps1 quietened kept quiet_reads)
  have spec1: "(case spec_tick (\<lambda>current. current) BATTERY_FULL_CAPACITY CURRENT_SENSITIVITY
             (1000 - timeOfLastCheck (step1 quiet (power_on [])))
             (noLoadVoltage (step1 quiet (power_on [])))
             (currentSensorVoltage (\<lambda>i. 2038)) (batteryJuiceLeft (step1 quiet (power_on [])))
       of (current, remaining, percent) \<Rightarrow> remaining) = 0x41410618"
    by (simp add: spec_tick_def Let_def after_setup1 constant_sensor_voltage v1 amps1
        nominal_hours claimed1)
  have code2: "remainingCapacity_Ah (step2 ?inp2 (step2 quiet power_on2)) = 0x41410569"
    by (simp add: step2_def [of ?inp2] after_setup2 after_button2_def tick2_def Let_def
        read_current2_def constant_sensor_voltage v2 amps2 counted quiet_reads)
  have spec2: "(case spec_tick (\<lambda>current. current) BATTERY_CAPACITY_Ah ACS712_SENSITIVITY
             (10000 - lastTime (step2 quiet power_on2))
             (zeroCurrentVoltage (step2 quiet power_on2))
             (sensor_voltage (\<lambda>i. 1900)) (remainingCapacity_Ah (step2 quiet power_on2))
       of (current, remaining, percent) \<Rightarrow> remaining) = 0x4140FECF"
    by (simp add: spec_tick_def Let_def after_setup2 constant_sensor_voltage v2 amps2
        late_hours claimed2)
  show ?thesis unfolding code1 spec1 code2 spec2 by simp
qed

end
